theory Spec2Isabelle
  imports Main "HOL-Library.Sublist"
begin

section \<open>Go strings\<close>

text \<open>
  A Go string is a sequence of bytes and is modelled as a \<^typ>\<open>string\<close>, one
  \<^typ>\<open>char\<close> per byte.
\<close>

abbreviation backtick :: char where "backtick \<equiv> CHR 0x60"
abbreviation backslash :: char where "backslash \<equiv> CHR 0x5C"
abbreviation dquote :: char where "dquote \<equiv> CHR 0x22"
abbreviation squote :: char where "squote \<equiv> CHR 0x27"
abbreviation newline :: char where "newline \<equiv> CHR 0x0A"

text \<open>\<^verbatim>\<open>strings.HasPrefix(s, p)\<close> and \<^verbatim>\<open>strings.HasSuffix(s, suf)\<close>.\<close>

definition HasPrefix :: "string \<Rightarrow> string \<Rightarrow> bool" where
  "HasPrefix s p = prefix p s"

definition HasSuffix :: "string \<Rightarrow> string \<Rightarrow> bool" where
  "HasSuffix s suf = prefix (rev suf) (rev s)"

text \<open>\<^verbatim>\<open>strings.TrimSuffix(s, suf)\<close>: \<open>s\<close> without the trailing \<open>suf\<close>, or \<open>s\<close> itself.\<close>

definition TrimSuffix :: "string \<Rightarrow> string \<Rightarrow> string" where
  "TrimSuffix s suf = (if HasSuffix s suf then take (length s - length suf) s else s)"

text \<open>
  \<^verbatim>\<open>strings.ReplaceAll(s, old, new)\<close>: the non-overlapping occurrences of \<open>old\<close>, found
  from the left, are replaced by \<open>new\<close>. An empty \<open>old\<close> matches before every character
  and at the end.
\<close>

function ReplaceAll :: "string \<Rightarrow> string \<Rightarrow> string \<Rightarrow> string" where
  "ReplaceAll s old new =
     (if old = [] then concat (map (\<lambda>c. new @ [c]) s) @ new
      else if s = [] then []
      else if prefix old s then new @ ReplaceAll (drop (length old) s) old new
      else hd s # ReplaceAll (tl s) old new)"
  by pat_completeness auto
termination
  by (relation "measure (\<lambda>(s, old, new). length s)") auto

declare ReplaceAll.simps [simp del]

text \<open>
  Go's slice expressions \<^verbatim>\<open>s[lo:]\<close>, \<^verbatim>\<open>s[:hi]\<close> and \<^verbatim>\<open>s[lo:hi]\<close> panic when the bounds
  are out of range; \<open>None\<close> is the panic.
\<close>

definition slice_from :: "'a list \<Rightarrow> int \<Rightarrow> 'a list option" where
  "slice_from s lo = (if 0 \<le> lo \<and> lo \<le> int (length s) then Some (drop (nat lo) s) else None)"

definition slice_to :: "'a list \<Rightarrow> int \<Rightarrow> 'a list option" where
  "slice_to s hi = (if 0 \<le> hi \<and> hi \<le> int (length s) then Some (take (nat hi) s) else None)"

definition slice :: "'a list \<Rightarrow> int \<Rightarrow> int \<Rightarrow> 'a list option" where
  "slice s lo hi =
     (if 0 \<le> lo \<and> lo \<le> hi \<and> hi \<le> int (length s)
      then Some (take (nat (hi - lo)) (drop (nat lo) s)) else None)"

text \<open>
  \<^verbatim>\<open>utf8.DecodeRuneInString\<close>: the number of bytes of the rune that a string starts
  with, \<open>0\<close> where the bytes are no UTF-8 encoding (the rune is then the replacement
  character U+FFFD, read from one byte). The second byte of an encoding has a range of
  its own, given by the first byte; the other bytes are continuation bytes.
\<close>

definition byteIn :: "char \<Rightarrow> nat \<Rightarrow> nat \<Rightarrow> bool" where
  "byteIn c lo hi = (lo \<le> of_char c \<and> of_char c \<le> hi)"

definition acceptRange :: "char \<Rightarrow> (nat \<times> nat \<times> nat) option" where
  "acceptRange b =
     (if byteIn b 0xC2 0xDF then Some (2, 0x80, 0xBF)
      else if byteIn b 0xE0 0xE0 then Some (3, 0xA0, 0xBF)
      else if byteIn b 0xED 0xED then Some (3, 0x80, 0x9F)
      else if byteIn b 0xE1 0xEF then Some (3, 0x80, 0xBF)
      else if byteIn b 0xF0 0xF0 then Some (4, 0x90, 0xBF)
      else if byteIn b 0xF1 0xF3 then Some (4, 0x80, 0xBF)
      else if byteIn b 0xF4 0xF4 then Some (4, 0x80, 0x8F)
      else None)"

definition runeWidth :: "string \<Rightarrow> nat" where
  "runeWidth s =
     (case s of
        [] \<Rightarrow> 0
      | b0 # rest \<Rightarrow>
          if byteIn b0 0x00 0x7F then 1
          else (case acceptRange b0 of
                  None \<Rightarrow> 0
                | Some (n, lo, hi) \<Rightarrow>
                    (case rest of
                       [] \<Rightarrow> 0
                     | b1 # more \<Rightarrow>
                         if byteIn b1 lo hi \<and> n - 2 \<le> length more \<and>
                            list_all (\<lambda>c. byteIn c 0x80 0xBF) (take (n - 2) more)
                         then n else 0)))"

text \<open>
  \<^verbatim>\<open>[]rune(s)\<close>, each rune written in its UTF-8 encoding again, as every
  \<^verbatim>\<open>string(inputRunes[i:j])\<close> of the lexer writes it: a byte that starts no encoding
  has become the three bytes of U+FFFD. The lexer of the source steps through the runes of
  this string and the model through its bytes. The tokens are the same: the prefixes,
  brackets, quotes, backticks and backslashes that the lexer looks for are single bytes
  below \<open>0x80\<close>, which no byte of a longer encoding is, so a byte inside a rune starts
  nothing and ends nothing, and the one place where the source counts bytes
  (\<^verbatim>\<open>len(currentContent) - 1\<close>) points at the last byte of the content in both.
\<close>

function runesOf :: "string \<Rightarrow> string" where
  "runesOf s =
     (if s = [] then []
      else if runeWidth s = 0 then [CHR 0xEF, CHR 0xBF, CHR 0xBD] @ runesOf (tl s)
      else take (runeWidth s) s @ runesOf (drop (runeWidth s) s))"
  by pat_completeness auto
termination
  by (relation "measure length") auto

declare runesOf.simps [simp del]

section \<open>The line lexer\<close>

type_synonym tokenType = int

definition errorToken :: tokenType where [simp]: "errorToken = 0"
definition commentToken :: tokenType where [simp]: "commentToken = 1"
definition textToken :: tokenType where [simp]: "textToken = 2"
definition executableToken :: tokenType where [simp]: "executableToken = 3"
definition envVarToken :: tokenType where [simp]: "envVarToken = 4"

record token =
  tokenType :: tokenType
  content :: string
  fatalContent :: string

abbreviation commentPrefix :: string where "commentPrefix \<equiv> ''#''"
abbreviation envVarPrefix :: string where "envVarPrefix \<equiv> ''${''"
abbreviation executablePrefix :: string where "executablePrefix \<equiv> ''$(''"

definition unescapeTextContent :: "string \<Rightarrow> tokenType \<Rightarrow> bool \<Rightarrow> string" where
  "unescapeTextContent content0 allowedToken hasNextToken =
     (let content1 = (if allowedToken \<ge> envVarToken
                      then ReplaceAll content0 (backtick # envVarPrefix) envVarPrefix
                      else content0);
          content2 = (if allowedToken \<ge> executableToken
                      then ReplaceAll content1 (backtick # executablePrefix) executablePrefix
                      else content1);
          content3 = ReplaceAll content2 (backtick # commentPrefix) commentPrefix
      in if hasNextToken \<and> HasSuffix content3 [backslash, backtick]
         then TrimSuffix content3 [backslash, backtick] @ [backtick]
         else content3)"

text \<open>Lines 91-99 alone: the three replacements, without the trailing backtick of line 102.\<close>

definition passes :: "tokenType \<Rightarrow> string \<Rightarrow> string" where
  "passes allowedToken content0 =
     (let content1 = (if allowedToken \<ge> envVarToken
                      then ReplaceAll content0 (backtick # envVarPrefix) envVarPrefix
                      else content0);
          content2 = (if allowedToken \<ge> executableToken
                      then ReplaceAll content1 (backtick # executablePrefix) executablePrefix
                      else content1)
      in ReplaceAll content2 (backtick # commentPrefix) commentPrefix)"

definition isStartOfToken :: "string \<Rightarrow> string \<Rightarrow> string \<Rightarrow> bool" where
  "isStartOfToken tokenTypePrefix prev rest =
     (HasPrefix rest tokenTypePrefix \<and>
      (\<not> HasSuffix prev [backtick] \<or> HasSuffix prev [backslash, backtick]))"

text \<open>
  The gates of lines 91, 95 and 99, and of lines 132, 139 and 147: a prefix is looked for,
  and unescaped, when its kind is within the allowed ceiling; the comment prefix always is.
\<close>

definition recognised :: "string \<Rightarrow> tokenType \<Rightarrow> bool" where
  "recognised tokenTypePrefix allowedToken =
     (tokenTypePrefix = envVarPrefix \<and> allowedToken \<ge> envVarToken \<or>
      tokenTypePrefix = executablePrefix \<and> allowedToken \<ge> executableToken \<or>
      tokenTypePrefix = commentPrefix)"

text \<open>The local variables of \<^verbatim>\<open>Tokenize\<close>; a \<open>0\<close> quote rune means that no quote is open.\<close>

record lexer =
  result :: "token list"
  currentContent :: string
  currentTokenType :: tokenType
  executableQuoteRune :: char
  executableQuoteEnd :: int
  executableStartIdx :: int
  idx :: int

text \<open>What one pass through the loop body does: go round again, return, or panic.\<close>

datatype control = Continue lexer | Return "token list" string | Panic

text \<open>
  Lines 205-206 and 214-215: the content after the last closed quote has its escaped
  closing parentheses unescaped.
\<close>

definition unescapeTillNow :: "string \<Rightarrow> int \<Rightarrow> string option" where
  "unescapeTillNow cc quoteEnd =
     (case (slice_from cc quoteEnd, slice_to cc quoteEnd) of
        (Some unescapedContentTillNow, Some kept) \<Rightarrow>
          Some (kept @ ReplaceAll unescapedContentTillNow (backtick # '')'') '')'')
      | _ \<Rightarrow> None)"

text \<open>Lines 200-211: the \<^verbatim>\<open>switch\<close> on the next rune inside an executable.\<close>

definition quoteSwitch :: "string \<Rightarrow> char \<Rightarrow> lexer \<Rightarrow> lexer option" where
  "quoteSwitch prev nextRune st =
     (if nextRune = dquote \<or> nextRune = squote then
        (if executableQuoteRune st = CHR 0x00 then
           (case unescapeTillNow (currentContent st) (executableQuoteEnd st) of
              None \<Rightarrow> None
            | Some cc \<Rightarrow> Some (st\<lparr>executableQuoteRune := nextRune, currentContent := cc\<rparr>))
         else if \<not> HasSuffix prev [backslash] \<and> executableQuoteRune st = nextRune then
           Some (st\<lparr>executableQuoteRune := CHR 0x00,
                     executableQuoteEnd := int (length (currentContent st)) - 1\<rparr>)
         else Some st)
      else Some st)"

text \<open>Lines 236-237: the rune at \<open>idx\<close> joins the current content.\<close>

definition appendRune :: "string \<Rightarrow> lexer \<Rightarrow> control" where
  "appendRune input st =
     (case slice input (idx st) (idx st + 1) of
        None \<Rightarrow> Panic
      | Some r \<Rightarrow> Continue (st\<lparr>currentContent := currentContent st @ r, idx := idx st + 1\<rparr>))"

text \<open>Lines 130-176: in text state, the three prefixes are tried, one after the other.\<close>

definition startTokens :: "tokenType \<Rightarrow> string \<Rightarrow> string \<Rightarrow> lexer \<Rightarrow> lexer" where
  "startTokens allowedToken prev rest st =
     (let st1 = (if allowedToken \<ge> envVarToken \<and> isStartOfToken envVarPrefix prev rest
                 then st\<lparr>idx := idx st + int (length envVarPrefix),
                         currentTokenType := envVarToken\<rparr>
                 else st);
          st2 = (if allowedToken \<ge> executableToken \<and> isStartOfToken executablePrefix prev rest
                 then st1\<lparr>executableStartIdx := idx st1,
                          idx := idx st1 + int (length executablePrefix),
                          currentTokenType := executableToken\<rparr>
                 else st1)
      in (if isStartOfToken commentPrefix prev rest
          then st2\<lparr>idx := idx st2 + int (length commentPrefix),
                   currentTokenType := commentToken\<rparr>
          else st2))"

definition packText :: "tokenType \<Rightarrow> lexer \<Rightarrow> token list" where
  "packText allowedToken st =
     (if length (currentContent st) > 0
      then result st @ [\<lparr>tokenType = textToken,
                         content = unescapeTextContent (currentContent st) allowedToken True,
                         fatalContent = currentContent st\<rparr>]
      else result st)"

text \<open>Lines 178-196: an unescaped closing bracket ends an environment variable.\<close>

definition closeEnvVar :: "lexer \<Rightarrow> lexer" where
  "closeEnvVar st =
     (let unescapedContent0 = ReplaceAll (currentContent st) (backtick # ''}'') ''}'';
          unescapedContent =
            (if HasSuffix unescapedContent0 [backslash, backtick]
             then TrimSuffix unescapedContent0 [backslash, backtick] @ [backtick]
             else unescapedContent0)
      in st\<lparr>result := result st @ [\<lparr>tokenType = envVarToken, content = unescapedContent,
                                     fatalContent = envVarPrefix @ currentContent st @ ''}''\<rparr>],
             currentTokenType := textToken, currentContent := [], idx := idx st + 1\<rparr>)"

text \<open>Lines 213-233: an unescaped closing parenthesis outside quotes ends an executable.\<close>

definition closeExecutable :: "string \<Rightarrow> lexer \<Rightarrow> control" where
  "closeExecutable input st =
     (case unescapeTillNow (currentContent st) (executableQuoteEnd st) of
        None \<Rightarrow> Panic
      | Some cc0 \<Rightarrow>
          (let cc = (if HasSuffix cc0 [backslash, backtick]
                     then TrimSuffix cc0 [backslash, backtick] @ [backtick] else cc0)
           in case slice input (executableStartIdx st) (idx st + 1) of
                None \<Rightarrow> Panic
              | Some raw \<Rightarrow>
                  Continue (st\<lparr>result := result st @ [\<lparr>tokenType = executableToken,
                                                       content = cc, fatalContent = raw\<rparr>],
                               executableQuoteEnd := 0, currentTokenType := textToken,
                               currentContent := [], idx := idx st + 1\<rparr>)))"

text \<open>Lines 127-237: the loop body, entered with \<open>idx < len(inputRunes)\<close>.\<close>

definition loopBody :: "string \<Rightarrow> tokenType \<Rightarrow> lexer \<Rightarrow> control" where
  "loopBody input allowedToken st =
     (case (slice_from input (idx st), slice_to input (idx st)) of
        (Some rest, Some prev) \<Rightarrow>
          (let st3 = (if currentTokenType st = textToken
                      then startTokens allowedToken prev rest st else st)
           in if currentTokenType st = textToken \<and> currentTokenType st3 \<noteq> textToken then
                (if currentTokenType st3 = commentToken
                 then Return (packText allowedToken st3 @
                                [\<lparr>tokenType = commentToken, content = [], fatalContent = rest\<rparr>]) []
                 else Continue (st3\<lparr>result := packText allowedToken st3, currentContent := []\<rparr>))
              else if currentTokenType st = envVarToken \<and> isStartOfToken ''}'' prev rest then
                Continue (closeEnvVar st)
              else if currentTokenType st = executableToken then
                (case rest of
                   [] \<Rightarrow> Panic
                 | nextRune # _ \<Rightarrow>
                     (case quoteSwitch prev nextRune st of
                        None \<Rightarrow> Panic
                      | Some sq \<Rightarrow>
                          if executableQuoteRune sq = CHR 0x00 \<and> isStartOfToken '')'' prev rest
                          then closeExecutable input sq
                          else appendRune input sq))
              else appendRune input st)
      | _ \<Rightarrow> Panic)"

text \<open>Lines 240-270: what is returned once the line is used up.\<close>

definition afterLoop :: "string \<Rightarrow> tokenType \<Rightarrow> lexer \<Rightarrow> (token list \<times> string) option" where
  "afterLoop input allowedToken st =
     (if currentTokenType st = envVarToken then
        Some (result st @ [\<lparr>tokenType = errorToken, content = [],
                             fatalContent = envVarPrefix @ currentContent st\<rparr>],
              ''Missing closing bracket for environment variable: '' @ envVarPrefix @
                currentContent st)
      else if currentTokenType st = executableToken then
        (case slice_from input (executableStartIdx st) of
           None \<Rightarrow> None
         | Some fragment \<Rightarrow>
             Some (result st @ [\<lparr>tokenType = errorToken, content = [],
                                  fatalContent = executablePrefix @ currentContent st\<rparr>],
                   (if executableQuoteRune st \<noteq> CHR 0x00
                    then ''Unterminated quote sequence for executable: '' @ fragment
                    else ''Missing closing parenthesis for executable: '' @ fragment)))
      else if length (currentContent st) > 0 \<and> currentTokenType st = textToken then
        Some (result st @ [\<lparr>tokenType = textToken,
                             content = unescapeTextContent (currentContent st) allowedToken False,
                             fatalContent = currentContent st\<rparr>], [])
      else Some (result st, []))"

text \<open>Lines 126-238: the loop runs while \<open>idx < len(inputRunes)\<close>.\<close>

function Tokenize_loop :: "string \<Rightarrow> tokenType \<Rightarrow> lexer \<Rightarrow> (token list \<times> string) option" where
  "Tokenize_loop input allowedToken st =
     (if idx st < int (length input) then
        (case loopBody input allowedToken st of
           Continue st' \<Rightarrow> Tokenize_loop input allowedToken st'
         | Return r fatal \<Rightarrow> Some (r, fatal)
         | Panic \<Rightarrow> None)
      else afterLoop input allowedToken st)"
  by pat_completeness auto
termination
proof (relation "measure (\<lambda>(input, allowedToken, st). nat (int (length input) - idx st))")
  fix input :: string and allowedToken :: tokenType and st st' :: lexer
  assume guard: "idx st < int (length input)"
    and body: "loopBody input allowedToken st = Continue st'"
  have start: "idx st < idx (startTokens allowedToken prev rest st)"
    if "currentTokenType (startTokens allowedToken prev rest st) \<noteq> currentTokenType st"
    for prev rest
    using that by (auto simp: startTokens_def Let_def split: if_splits)
  have quote: "idx sq = idx st" if "quoteSwitch prev r st = Some sq" for prev r sq
    using that by (auto simp: quoteSwitch_def split: if_splits option.splits)
  have app: "idx s < idx s'" if "appendRune input s = Continue s'" for s s'
    using that by (auto simp: appendRune_def split: option.splits)
  have cl: "idx s < idx s'" if "closeExecutable input s = Continue s'" for s s'
    using that by (auto simp: closeExecutable_def Let_def split: option.splits)
  have env: "idx st < idx (closeEnvVar st)"
    by (simp add: closeEnvVar_def Let_def)
  from body have "idx st < idx st'"
    using start
    by (auto simp: loopBody_def Let_def env
          split: option.splits if_splits list.splits
          dest!: app cl dest: quote)
  with guard
  show "((input, allowedToken, st'), (input, allowedToken, st))
          \<in> measure (\<lambda>(input, allowedToken, st). nat (int (length input) - idx st))"
    by simp
qed simp

declare Tokenize_loop.simps [simp del]

definition initialLexer :: lexer where
  "initialLexer = \<lparr>result = [], currentContent = [], currentTokenType = textToken,
                   executableQuoteRune = CHR 0x00, executableQuoteEnd = 0,
                   executableStartIdx = 0, idx = 0\<rparr>"

text \<open>
  \<^verbatim>\<open>Tokenize(input, allowedToken)\<close>: the tokens and the fatal message; \<open>None\<close> is a
  panic. The loop works on the runes of the line.
\<close>

definition Tokenize :: "string \<Rightarrow> tokenType \<Rightarrow> (token list \<times> string) option" where
  "Tokenize input allowedToken = Tokenize_loop (runesOf input) allowedToken initialLexer"

text \<open>
  The local variables after \<open>n\<close> more passes through the loop, if it runs that long. A
  pass of the model takes a byte, or a prefix, where a pass of the source takes a rune, or
  a prefix.
\<close>

fun lexerAfter :: "string \<Rightarrow> tokenType \<Rightarrow> nat \<Rightarrow> lexer \<Rightarrow> lexer option" where
  "lexerAfter input allowedToken 0 st = Some st"
| "lexerAfter input allowedToken (Suc n) st =
     (if idx st < int (length input) then
        (case loopBody input allowedToken st of
           Continue st' \<Rightarrow> lexerAfter input allowedToken n st'
         | _ \<Rightarrow> None)
      else None)"

text \<open>The raw contents of a list of tokens, one after the other.\<close>

definition rawContents :: "token list \<Rightarrow> string" where
  "rawContents toks = concat (map fatalContent toks)"

text \<open>
  What holds of the local variables whenever the loop condition is tested: the index is
  within the line; in text state and inside an environment variable no quote is open and
  the raw contents of the tokens so far, with what is being read, are the line up to the
  index; inside an executable the tokens so far are the line up to the start of the
  executable, the end of the last quote lies within the current content, and an open
  quote has left its quote character in the current content.
\<close>

definition lexerInv :: "string \<Rightarrow> lexer \<Rightarrow> bool" where
  "lexerInv input st =
     (0 \<le> idx st \<and> idx st \<le> int (length input) \<and>
      (if currentTokenType st = textToken then
         executableQuoteRune st = CHR 0x00 \<and> executableQuoteEnd st = 0 \<and>
         rawContents (result st) @ currentContent st = take (nat (idx st)) input
       else if currentTokenType st = envVarToken then
         executableQuoteRune st = CHR 0x00 \<and> executableQuoteEnd st = 0 \<and>
         rawContents (result st) @ envVarPrefix @ currentContent st = take (nat (idx st)) input
       else
         currentTokenType st = executableToken \<and>
         0 \<le> executableStartIdx st \<and> executableStartIdx st \<le> idx st \<and>
         rawContents (result st) = take (nat (executableStartIdx st)) input \<and>
         0 \<le> executableQuoteEnd st \<and>
         executableQuoteEnd st \<le> int (length (currentContent st)) \<and>
         (executableQuoteRune st \<noteq> CHR 0x00 \<longrightarrow> currentContent st \<noteq> [])))"

text \<open>
  One pass through the loop body is in order when it keeps that, or returns the line cut
  into tokens with no fatal message, and does not panic.
\<close>

definition stepOk :: "string \<Rightarrow> control \<Rightarrow> bool" where
  "stepOk input c =
     (case c of Continue st' \<Rightarrow> lexerInv input st'
      | Return r fatal \<Rightarrow> rawContents r = input \<and> fatal = []
      | Panic \<Rightarrow> False)"

section \<open>More of the Go library\<close>

text \<open>
  The runes for which \<^verbatim>\<open>unicode.IsSpace\<close> holds, each in its UTF-8 encoding: the six of
  ASCII, U+0085, U+00A0, U+1680, U+2000 to U+200A, U+2028, U+2029, U+202F, U+205F and
  U+3000. A string starts with one of these encodings just when it decodes to that rune
  at its start, and ends with one just when it decodes to that rune at its end.
\<close>

definition spaceRunes :: "string list" where
  "spaceRunes =
     [[CHR 0x09], [CHR 0x0A], [CHR 0x0B], [CHR 0x0C], [CHR 0x0D], [CHR 0x20],
      [CHR 0xC2, CHR 0x85], [CHR 0xC2, CHR 0xA0], [CHR 0xE1, CHR 0x9A, CHR 0x80],
      [CHR 0xE2, CHR 0x80, CHR 0x80], [CHR 0xE2, CHR 0x80, CHR 0x81],
      [CHR 0xE2, CHR 0x80, CHR 0x82], [CHR 0xE2, CHR 0x80, CHR 0x83],
      [CHR 0xE2, CHR 0x80, CHR 0x84], [CHR 0xE2, CHR 0x80, CHR 0x85],
      [CHR 0xE2, CHR 0x80, CHR 0x86], [CHR 0xE2, CHR 0x80, CHR 0x87],
      [CHR 0xE2, CHR 0x80, CHR 0x88], [CHR 0xE2, CHR 0x80, CHR 0x89],
      [CHR 0xE2, CHR 0x80, CHR 0x8A], [CHR 0xE2, CHR 0x80, CHR 0xA8],
      [CHR 0xE2, CHR 0x80, CHR 0xA9], [CHR 0xE2, CHR 0x80, CHR 0xAF],
      [CHR 0xE2, CHR 0x81, CHR 0x9F], [CHR 0xE3, CHR 0x80, CHR 0x80]]"

text \<open>The runes of the list are taken off the start of \<open>s\<close>, as long as one is there.\<close>

function trimLeading :: "string list \<Rightarrow> string \<Rightarrow> string" where
  "trimLeading runes s =
     (case find (\<lambda>r. r \<noteq> [] \<and> prefix r s) runes of
        None \<Rightarrow> s
      | Some r \<Rightarrow> trimLeading runes (drop (length r) s))"
  by pat_completeness auto
termination
proof (relation "measure (\<lambda>(runes, s). length s)")
  fix runes :: "string list" and s r :: string
  assume "find (\<lambda>r. r \<noteq> [] \<and> prefix r s) runes = Some r"
  then have "r \<noteq> []" and "prefix r s"
    by (auto simp: find_Some_iff)
  then have "s \<noteq> []" by auto
  with \<open>r \<noteq> []\<close> show "((runes, drop (length r) s), (runes, s)) \<in> measure (\<lambda>(runes, s). length s)"
    by simp
qed simp

declare trimLeading.simps [simp del]

text \<open>
  \<^verbatim>\<open>strings.TrimSpace(s)\<close>: the white space runes at the start are taken off, then those
  at the end.
\<close>

definition TrimSpace :: "string \<Rightarrow> string" where
  "TrimSpace s = rev (trimLeading (map rev spaceRunes) (rev (trimLeading spaceRunes s)))"

text \<open>The white space of ASCII.\<close>

definition isSpace :: "char \<Rightarrow> bool" where
  "isSpace c = (c \<in> {CHR 0x09, CHR 0x0A, CHR 0x0B, CHR 0x0C, CHR 0x0D, CHR 0x20})"

text \<open>\<^verbatim>\<open>strings.Join(elems, sep)\<close>.\<close>

fun Join :: "string list \<Rightarrow> string \<Rightarrow> string" where
  "Join [] sep = []"
| "Join [e] sep = e"
| "Join (e # es) sep = e @ sep @ Join es sep"

text \<open>
  \<^verbatim>\<open>strings.Split(s, sep)\<close>: the pieces of \<open>s\<close> between the occurrences of \<open>sep\<close>, found
  from the left; an empty \<open>sep\<close> splits after every character.
\<close>

function splitFrom :: "string \<Rightarrow> string \<Rightarrow> string \<Rightarrow> string list" where
  "splitFrom s sep piece =
     (if sep = [] \<or> s = [] then [piece]
      else if prefix sep s then piece # splitFrom (drop (length sep) s) sep []
      else splitFrom (tl s) sep (piece @ [hd s]))"
  by pat_completeness auto
termination
  by (relation "measure (\<lambda>(s, sep, piece). length s)") auto

declare splitFrom.simps [simp del]

definition Split :: "string \<Rightarrow> string \<Rightarrow> string list" where
  "Split s sep = (if sep = [] then map (\<lambda>c. [c]) s else splitFrom s sep [])"

text \<open>The verb \<^verbatim>\<open>%d\<close> of \<^verbatim>\<open>fmt.Sprintf\<close>: an integer in decimal.\<close>

function decimal :: "nat \<Rightarrow> string" where
  "decimal n =
     (if n < 10 then [''0123456789'' ! n]
      else decimal (n div 10) @ [''0123456789'' ! (n mod 10)])"
  by pat_completeness auto
termination
  by (relation "measure id") auto

declare decimal.simps [simp del]

definition fmt_d :: "int \<Rightarrow> string" where
  "fmt_d i = (if i < 0 then CHR ''-'' # decimal (nat (- i)) else decimal (nat i))"

section \<open>The concurrent executable runner\<close>

record executableAndArgs =
  executable :: string
  args :: "string list"

record executableOutput =
  "output" :: string
  fatalMessage :: string

text \<open>
  \<^verbatim>\<open>data.Config\<close> is declared outside the given sources; the runner reads its
  \<^verbatim>\<open>Timeout\<close> only. The constant \<^verbatim>\<open>data.TimeoutNotSet\<close> is missing as well and is a
  parameter \<open>TimeoutNotSet\<close> of the definitions below.
\<close>

record Config =
  Timeout :: int

text \<open>
  What the operating system did with one command, as the goroutine sees it after
  \<^verbatim>\<open>cmd.Run()\<close> has returned: the text of \<^verbatim>\<open>cmd.String()\<close>, whether the caller's
  context was cancelled, whether the deadline of the derived context (if one was derived)
  has passed, the error of \<^verbatim>\<open>Run\<close>, and the two captured streams.
\<close>

record processRun =
  cmdString :: string
  ctxCancelled :: bool
  deadlinePassed :: bool
  runErr :: "string option"
  stdoutStr :: string
  stderrStr :: string

text \<open>
  Lines 96-106: \<^verbatim>\<open>timeoutCtx\<close> is the caller's context, wrapped in a deadline when a
  timeout is configured; \<^verbatim>\<open>timeoutCtx.Err() != nil\<close> after the run.
\<close>

definition timeoutCtxErr :: "int \<Rightarrow> Config \<Rightarrow> processRun \<Rightarrow> bool" where
  "timeoutCtxErr TimeoutNotSet config run =
     (if Timeout config \<noteq> TimeoutNotSet
      then ctxCancelled run \<or> deadlinePassed run
      else ctxCancelled run)"

text \<open>Lines 86-134: the body of one goroutine, writing to its own result slot.\<close>

definition goroutine :: "int \<Rightarrow> Config \<Rightarrow> processRun \<Rightarrow> executableOutput \<Rightarrow> executableOutput" where
  "goroutine TimeoutNotSet config run slot =
     (if timeoutCtxErr TimeoutNotSet config run then
        slot\<lparr>fatalMessage := ''Executable '' @ cmdString run @ '' timed out after '' @
                               fmt_d (Timeout config) @ '' seconds''\<rparr>
      else
        (case runErr run of
           Some err \<Rightarrow>
             (let executableOutput =
                    (if stdoutStr run \<noteq> [] \<or> stderrStr run \<noteq> []
                     then newline # TrimSpace (Join [TrimSpace (stdoutStr run),
                                                     TrimSpace (stderrStr run)] '' '')
                     else [])
              in slot\<lparr>fatalMessage := ''Executable '' @ cmdString run @ '' error: '' @ err @
                                        executableOutput\<rparr>)
         | None \<Rightarrow>
             if stdoutStr run = [] then
               slot\<lparr>fatalMessage := ''Executable '' @ cmdString run @
                                      newline # ''Command produced no stdout output''\<rparr>
             else slot\<lparr>output := stdoutStr run\<rparr>))"

text \<open>
  Lines 81-142, the slice. The goroutines finish in some order, the \<open>schedule\<close>: a list
  of the indices of the requests. Each finishing goroutine writes once, to the slot of its
  own index, in the slice made by \<^verbatim>\<open>make([]executableOutput, len(executables))\<close>.
  \<open>os i e\<close> is what happens to the command of request \<open>e\<close> started by goroutine
  \<open>i\<close>. \<open>callExecutables\<close> is the slice after the goroutines of the schedule have
  finished; it is what the function returns when it returns, as \<open>callExecutables_wg\<close>
  below, the function with its wait group, makes precise.
\<close>

definition zeroOutput :: executableOutput where
  "zeroOutput = \<lparr>output = [], fatalMessage = []\<rparr>"

definition finish ::
  "int \<Rightarrow> Config \<Rightarrow> (nat \<Rightarrow> executableAndArgs \<Rightarrow> processRun) \<Rightarrow> executableAndArgs list \<Rightarrow>
   executableOutput list \<Rightarrow> nat \<Rightarrow> executableOutput list" where
  "finish TimeoutNotSet config os executables executableResults resultIndex =
     executableResults[resultIndex :=
       goroutine TimeoutNotSet config (os resultIndex (executables ! resultIndex))
         (executableResults ! resultIndex)]"

definition callExecutables ::
  "int \<Rightarrow> Config \<Rightarrow> (nat \<Rightarrow> executableAndArgs \<Rightarrow> processRun) \<Rightarrow> nat list \<Rightarrow>
   executableAndArgs list \<Rightarrow> executableOutput list" where
  "callExecutables TimeoutNotSet config os schedule executables =
     foldl (finish TimeoutNotSet config os executables)
       (replicate (length executables) zeroOutput) schedule"

text \<open>A schedule is fair when every goroutine finishes exactly once.\<close>

definition fair :: "nat list \<Rightarrow> nat \<Rightarrow> bool" where
  "fair schedule n = (distinct schedule \<and> set schedule = {..<n})"

text \<open>
  Lines 84-139 with the wait group. The main goroutine runs the loop: for each request
  the \<^verbatim>\<open>go\<close> statement (line 86) and then \<^verbatim>\<open>wg.Add(1)\<close> (line 136); after the loop
  it waits in \<^verbatim>\<open>wg.Wait()\<close> (line 139) until the counter is zero, and returns the
  slice. A goroutine that has been started runs on its own; when it finishes it has
  written its slot, and its deferred \<^verbatim>\<open>wg.Done()\<close> (line 87) takes one from the
  counter. A counter that goes below zero is the panic of \<^verbatim>\<open>sync.WaitGroup\<close>,
  ``sync: negative WaitGroup counter'', which ends the program.

  A run is a list of events: the next step of the main goroutine, or the finishing of
  the goroutine of one request.
\<close>

datatype event = MainStep | Finish nat

record runner =
  started :: nat
  added :: nat
  wgCounter :: int
  finished :: "nat list"
  executableResults :: "executableOutput list"

text \<open>
  What a list of events comes to: the slice is returned, or the program panics, or the
  list is no run of the program: a goroutine finishes before it is started or finishes
  twice, the main goroutine goes on while it has to wait, or the list ends before the
  function returns.
\<close>

datatype outcome = Returns "executableOutput list" | Panics | NoRun

fun wgRun ::
  "int \<Rightarrow> Config \<Rightarrow> (nat \<Rightarrow> executableAndArgs \<Rightarrow> processRun) \<Rightarrow> executableAndArgs list \<Rightarrow>
   event list \<Rightarrow> runner \<Rightarrow> outcome" where
  "wgRun TimeoutNotSet config os executables [] st = NoRun"
| "wgRun TimeoutNotSet config os executables (MainStep # trace) st =
     (if added st < started st then
        wgRun TimeoutNotSet config os executables trace
          (st\<lparr>added := added st + 1, wgCounter := wgCounter st + 1\<rparr>)
      else if started st < length executables then
        wgRun TimeoutNotSet config os executables trace (st\<lparr>started := started st + 1\<rparr>)
      else if wgCounter st = 0 then Returns (executableResults st)
      else NoRun)"
| "wgRun TimeoutNotSet config os executables (Finish resultIndex # trace) st =
     (if resultIndex < started st \<and> resultIndex \<notin> set (finished st) then
        (if wgCounter st - 1 < 0 then Panics
         else wgRun TimeoutNotSet config os executables trace
                (st\<lparr>finished := finished st @ [resultIndex],
                    executableResults :=
                      finish TimeoutNotSet config os executables (executableResults st)
                        resultIndex,
                    wgCounter := wgCounter st - 1\<rparr>))
      else NoRun)"

definition callExecutables_wg ::
  "int \<Rightarrow> Config \<Rightarrow> (nat \<Rightarrow> executableAndArgs \<Rightarrow> processRun) \<Rightarrow> event list \<Rightarrow>
   executableAndArgs list \<Rightarrow> outcome" where
  "callExecutables_wg TimeoutNotSet config os trace executables =
     wgRun TimeoutNotSet config os executables trace
       \<lparr>started = 0, added = 0, wgCounter = 0, finished = [],
        executableResults = replicate (length executables) zeroOutput\<rparr>"

text \<open>
  What holds of a run whenever the next event is taken: the goroutines that have finished
  are among those started, each once; the main goroutine has added to the counter for
  every goroutine it started but, between the two statements of the loop body, the last;
  the counter is what was added less what finished; and the slice is what the finished
  goroutines, in their order, made of the empty slots.
\<close>

definition runnerInv ::
  "int \<Rightarrow> Config \<Rightarrow> (nat \<Rightarrow> executableAndArgs \<Rightarrow> processRun) \<Rightarrow> executableAndArgs list \<Rightarrow>
   runner \<Rightarrow> bool" where
  "runnerInv TimeoutNotSet config os executables st =
     (distinct (finished st) \<and> set (finished st) \<subseteq> {..<started st} \<and>
      started st \<le> length executables \<and> added st \<le> started st \<and>
      wgCounter st = int (added st) - int (length (finished st)) \<and>
      executableResults st =
        foldl (finish TimeoutNotSet config os executables)
          (replicate (length executables) zeroOutput) (finished st))"

section \<open>The executable extractor\<close>

text \<open>
  \<^verbatim>\<open>executableExpressionRe\<close> is \<^verbatim>\<open>(m?)\$\([^)]*\)?\<close>: an optional \<open>m\<close>, the opening
  \<open>$(\<close>, the longest run of characters other than \<open>)\<close>, and a \<open>)\<close> if one follows.
  \<open>matchExpression s\<close> is the length of its match at the start of \<open>s\<close>.
\<close>

definition matchExpression :: "string \<Rightarrow> nat option" where
  "matchExpression s =
     (case (if prefix ''m$('' s then Some 3 else if prefix ''$('' s then Some 2 else None) of
        None \<Rightarrow> None
      | Some k \<Rightarrow>
          (let body = takeWhile (\<lambda>c. c \<noteq> CHR '')'') (drop k s);
               closing = (if prefix '')'' (drop (k + length body) s) then 1 else 0)
           in Some (k + length body + closing)))"

text \<open>\<^verbatim>\<open>executableExpressionRe.FindAllString(s, -1)\<close>: the matches from the left, none overlapping.\<close>

function executableExpressionRe_FindAllString :: "string \<Rightarrow> string list" where
  "executableExpressionRe_FindAllString s =
     (if s = [] then []
      else (case matchExpression s of
              None \<Rightarrow> executableExpressionRe_FindAllString (tl s)
            | Some n \<Rightarrow> take n s # executableExpressionRe_FindAllString (drop n s)))"
  by pat_completeness auto
termination
proof (relation "measure length")
  fix s :: string and n :: nat
  assume "s \<noteq> []" and "matchExpression s = Some n"
  then have "0 < n"
    by (auto simp: matchExpression_def Let_def split: if_splits)
  with \<open>s \<noteq> []\<close> show "(drop n s, s) \<in> measure length"
    by simp
qed auto

declare executableExpressionRe_FindAllString.simps [simp del]

text \<open>
  \<^verbatim>\<open>executableRe\<close> is \<^verbatim>\<open>\$\(([^)]*)\)\<close>. \<^verbatim>\<open>executableRe.FindStringSubmatch(s)\<close> is
  the leftmost \<open>$(\<close> whose run of characters other than \<open>)\<close> ends at a \<open>)\<close>, with the
  run as its one capture; no match is the empty slice.
\<close>

fun executableRe_FindStringSubmatch :: "string \<Rightarrow> string list" where
  "executableRe_FindStringSubmatch [] = []"
| "executableRe_FindStringSubmatch (c # cs) =
     (if prefix ''$('' (c # cs) \<and> dropWhile (\<lambda>x. x \<noteq> CHR '')'') (drop 2 (c # cs)) \<noteq> []
      then (let capture = takeWhile (\<lambda>x. x \<noteq> CHR '')'') (drop 2 (c # cs))
            in [''$('' @ capture @ '')'', capture])
      else executableRe_FindStringSubmatch cs)"

text \<open>
  Modelled from the spec: the section names, \<^verbatim>\<open>SectionedTemplate\<close>, its
  \<^verbatim>\<open>GetNamedSection\<close> and \<^verbatim>\<open>SetFatalMessage\<close> are declared outside the given
  sources. The allow-listed sections are host, query, headers, method, body, backend,
  backend-options and default-vars; a section is an ordered sequence of template lines,
  each with the index of its source line; a fatal is recorded against its source line.
\<close>

datatype sectionName =
  HostSection | QuerySection | HeadersSection | MethodSection | BodySection
| BackendSection | BackendOptionsSection | DefaultVarsSection

record sourceMarker =
  LineContents :: string
  SourceLineIndex :: int

record SectionedTemplate =
  GetNamedSection :: "sectionName \<Rightarrow> sourceMarker list"
  fatals :: "(string \<times> int) list"

definition SetFatalMessage :: "SectionedTemplate \<Rightarrow> string \<Rightarrow> int \<Rightarrow> SectionedTemplate" where
  "SetFatalMessage s msg sourceLineIndex = s\<lparr>fatals := fatals s @ [(msg, sourceLineIndex)]\<rparr>"

definition includedSections :: "sectionName list" where
  "includedSections =
     [HostSection, QuerySection, HeadersSection, MethodSection, BodySection,
      BackendSection, BackendOptionsSection, DefaultVarsSection]"

text \<open>
  Modelled from the spec: \<^verbatim>\<open>utils.TokenizeLine\<close> is outside the given sources. It
  splits a string into whitespace-separated tokens, a span in single or double quotes
  being one token even with whitespace inside; a backslash before the quote character
  that opened the span makes it a literal quote. An unclosed quote is its error. The
  scanner keeps the tokens so far, the token being read (if any) and the open quote.
\<close>

fun tokenizeFrom ::
  "string list \<Rightarrow> string option \<Rightarrow> char option \<Rightarrow> string \<Rightarrow> string + string list" where
  "tokenizeFrom toks cur None [] = Inr (toks @ (case cur of None \<Rightarrow> [] | Some t \<Rightarrow> [t]))"
| "tokenizeFrom toks cur (Some q) [] = Inl ''Unterminated quote sequence''"
| "tokenizeFrom toks cur None (c # cs) =
     (if isSpace c then tokenizeFrom (toks @ (case cur of None \<Rightarrow> [] | Some t \<Rightarrow> [t])) None None cs
      else if c = dquote \<or> c = squote
        then tokenizeFrom toks (Some (case cur of None \<Rightarrow> [] | Some t \<Rightarrow> t)) (Some c) cs
      else tokenizeFrom toks (Some ((case cur of None \<Rightarrow> [] | Some t \<Rightarrow> t) @ [c])) None cs)"
| "tokenizeFrom toks cur (Some q) (c # cs) =
     (if c = q then tokenizeFrom toks cur None cs
      else if c = backslash \<and> prefix [q] cs
        then tokenizeFrom toks (Some ((case cur of None \<Rightarrow> [] | Some t \<Rightarrow> t) @ [q])) (Some q) (tl cs)
      else tokenizeFrom toks (Some ((case cur of None \<Rightarrow> [] | Some t \<Rightarrow> t) @ [c])) (Some q) cs)"

definition TokenizeLine :: "string \<Rightarrow> string + string list" where
  "TokenizeLine commandLine = tokenizeFrom [] None None commandLine"

text \<open>A loop over a slice whose body may panic: the first panic ends it.\<close>

fun rangeOver :: "('s \<Rightarrow> 'a \<Rightarrow> 's option) \<Rightarrow> 's \<Rightarrow> 'a list \<Rightarrow> 's option" where
  "rangeOver body s [] = Some s"
| "rangeOver body s (x # xs) =
     (case body s x of None \<Rightarrow> None | Some s' \<Rightarrow> rangeOver body s' xs)"

text \<open>
  Lines 49-73: what is done with one match. The tokenizer is a parameter; indexing an
  empty token list is the panic \<open>None\<close>.
\<close>

definition captureMatch ::
  "(string \<Rightarrow> string + string list) \<Rightarrow> sourceMarker \<Rightarrow>
   SectionedTemplate \<times> executableAndArgs list \<Rightarrow> string \<Rightarrow>
   (SectionedTemplate \<times> executableAndArgs list) option" where
  "captureMatch tokenizeLine templateLine st executableWithParens =
     (let s = fst st; executables = snd st;
          executableAndArgsCapture = executableRe_FindStringSubmatch executableWithParens
      in if length executableAndArgsCapture \<noteq> 2 then
           Some (SetFatalMessage s ''Malformed executable'' (SourceLineIndex templateLine),
                 executables)
         else
           (let executableAndArgsStr = executableAndArgsCapture ! 1
            in if executableAndArgsStr = [] then
                 Some (SetFatalMessage s ''Empty executable'' (SourceLineIndex templateLine),
                       executables)
               else
                 (case tokenizeLine executableAndArgsStr of
                    Inl err \<Rightarrow>
                      Some (SetFatalMessage s err (SourceLineIndex templateLine), executables)
                  | Inr [] \<Rightarrow> None
                  | Inr (exe # rest) \<Rightarrow>
                      Some (s, executables @ [\<lparr>executable = exe, args = rest\<rparr>]))))"

definition captureLine ::
  "(string \<Rightarrow> string + string list) \<Rightarrow> SectionedTemplate \<times> executableAndArgs list \<Rightarrow>
   sourceMarker \<Rightarrow> (SectionedTemplate \<times> executableAndArgs list) option" where
  "captureLine tokenizeLine st templateLine =
     rangeOver (captureMatch tokenizeLine templateLine) st
       (executableExpressionRe_FindAllString (LineContents templateLine))"

definition captureSection ::
  "(string \<Rightarrow> string + string list) \<Rightarrow> SectionedTemplate \<times> executableAndArgs list \<Rightarrow>
   sectionName \<Rightarrow> (SectionedTemplate \<times> executableAndArgs list) option" where
  "captureSection tokenizeLine st sectionName =
     rangeOver (captureLine tokenizeLine) st (GetNamedSection (fst st) sectionName)"

text \<open>Lines 41-79: the template with its fatals, and the requests; \<open>None\<close> is a panic.\<close>

definition captureExecutableAndArgs ::
  "(string \<Rightarrow> string + string list) \<Rightarrow> SectionedTemplate \<Rightarrow>
   (SectionedTemplate \<times> executableAndArgs list) option" where
  "captureExecutableAndArgs tokenizeLine s =
     rangeOver (captureSection tokenizeLine) (s, []) includedSections"

section \<open>The backend command renderer\<close>

definition getTemplate :: "string \<Rightarrow> string" where
  \<open>getTemplate backend =
     (if backend = ''curl'' then ''curl {{range .Headers}} -H "{{.}}" {{end}} {{.Host.String}}''
      else if backend = ''httpie''
        then ''http --ignore-stdin {{.Host.String}} {{range .Headers}} "{{.}}" {{end}}''
      else [])\<close>

text \<open>The errors of \<^verbatim>\<open>CallBackend\<close>, one for each place that returns one.\<close>

datatype templateError = ParseFailed string | ExecuteFailed string

datatype callError =
  TemplateNotFound string
| CouldNotParseTemplate string
| CouldNotExecuteTemplate string
| EmptyTemplateResult
| EmptyBackendCommand string
| BackendFailed string
| IndexOutOfRange

text \<open>
  Lines 21-67: up to the command that is spawned. The template engine is a parameter
  \<open>render\<close>, parsing a template text and executing it against the call data; either
  step may fail. So is
  \<^verbatim>\<open>utils.UnsplitLineOnSeparator\<close>, which is outside the given sources. The result is the
  program and the arguments handed to \<^verbatim>\<open>exec.CommandContext\<close>.
\<close>

definition backendCmd ::
  "(string \<Rightarrow> templateError + string) \<Rightarrow> (string list \<Rightarrow> string \<Rightarrow> string list) \<Rightarrow> string \<Rightarrow>
   callError + string \<times> string list" where
  "backendCmd render UnsplitLineOnSeparator backend =
     (let backendTemplateStr = getTemplate backend
      in if backendTemplateStr = [] then Inl (TemplateNotFound backend)
         else
           (case render backendTemplateStr of
              Inl (ParseFailed err) \<Rightarrow> Inl (CouldNotParseTemplate err)
            | Inl (ExecuteFailed err) \<Rightarrow> Inl (CouldNotExecuteTemplate err)
            | Inr templateOutputBuilder \<Rightarrow>
                (let templateOutput = TrimSpace templateOutputBuilder
                 in if templateOutput = [] then Inl EmptyTemplateResult
                    else
                      (case Split templateOutput '' '' of
                         [] \<Rightarrow> Inl IndexOutOfRange
                       | command # arguments \<Rightarrow>
                           if command = [] then Inl (EmptyBackendCommand templateOutput)
                           else
                             (let backendCommandAndArgsSlice =
                                    UnsplitLineOnSeparator arguments [dquote];
                                  backendCommandAndArgsSlice =
                                    UnsplitLineOnSeparator backendCommandAndArgsSlice [squote]
                              in Inr (command, arguments))))))"

text \<open>Lines 64-79: the command is run; \<open>run\<close> is the operating system.\<close>

definition CallBackend ::
  "(string \<Rightarrow> templateError + string) \<Rightarrow> (string list \<Rightarrow> string \<Rightarrow> string list) \<Rightarrow>
   (string \<Rightarrow> string list \<Rightarrow> processRun) \<Rightarrow> string \<Rightarrow> callError + string" where
  "CallBackend render UnsplitLineOnSeparator run backend =
     (case backendCmd render UnsplitLineOnSeparator backend of
        Inl err \<Rightarrow> Inl err
      | Inr (command, arguments) \<Rightarrow>
          (let r = run command arguments
           in case runErr r of
                Some err \<Rightarrow>
                  Inl (BackendFailed (''Error: '' @ err @ '', running backend command: '' @
                         cmdString r @ ''.'' @ newline # ''Error output: '' @ stderrStr r @
                         '' '' @ stdoutStr r))
              | None \<Rightarrow> Inr (stdoutStr r)))"

section \<open>Example inputs\<close>

text \<open>
  Four requests and an operating system for them: \<open>true\<close> succeeds silently, \<open>false\<close>
  exits with status 1, \<open>echo hi\<close> prints a line, and \<open>sleep 5\<close> is killed at the
  deadline.
\<close>

definition exampleRequests :: "executableAndArgs list" where
  "exampleRequests =
     [\<lparr>executable = ''true'', args = []\<rparr>, \<lparr>executable = ''false'', args = []\<rparr>,
      \<lparr>executable = ''echo'', args = [''hi'']\<rparr>, \<lparr>executable = ''sleep'', args = [''5'']\<rparr>]"

definition exampleOs :: "nat \<Rightarrow> executableAndArgs \<Rightarrow> processRun" where
  "exampleOs i e =
     (if executable e = ''true'' then
        \<lparr>cmdString = ''/usr/bin/true'', ctxCancelled = False, deadlinePassed = False,
         runErr = None, stdoutStr = [], stderrStr = []\<rparr>
      else if executable e = ''false'' then
        \<lparr>cmdString = ''/usr/bin/false'', ctxCancelled = False, deadlinePassed = False,
         runErr = Some ''exit status 1'', stdoutStr = [], stderrStr = []\<rparr>
      else if executable e = ''echo'' then
        \<lparr>cmdString = ''/usr/bin/echo hi'', ctxCancelled = False, deadlinePassed = False,
         runErr = None, stdoutStr = ''hi'' @ [newline], stderrStr = []\<rparr>
      else
        \<lparr>cmdString = ''/usr/bin/sleep 5'', ctxCancelled = False, deadlinePassed = True,
         runErr = Some ''signal: killed'', stdoutStr = [], stderrStr = []\<rparr>)"

text \<open>An operating system on which the caller's context is cancelled while a command runs.\<close>

definition cancelledOs :: "nat \<Rightarrow> executableAndArgs \<Rightarrow> processRun" where
  "cancelledOs i e =
     \<lparr>cmdString = executable e, ctxCancelled = True, deadlinePassed = False,
      runErr = Some ''signal: killed'', stdoutStr = ''partial'', stderrStr = []\<rparr>"

text \<open>
  A template engine that renders the \<open>httpie\<close> template for the host \<open>localhost\<close> and
  the one header \<open>Accept: text/plain\<close>, and a backend run that succeeds.
\<close>

definition exampleRender :: "string \<Rightarrow> templateError + string" where
  \<open>exampleRender backendTemplateStr =
     Inr ''http --ignore-stdin localhost  "Accept: text/plain" ''\<close>

definition exampleRun :: "string \<Rightarrow> string list \<Rightarrow> processRun" where
  "exampleRun command arguments =
     \<lparr>cmdString = Join (command # arguments) '' '', ctxCancelled = False,
      deadlinePassed = False, runErr = None, stdoutStr = ''HTTP/1.1 200 OK'',
      stderrStr = []\<rparr>"

text \<open>A template whose host section is one line, line 7 of its file.\<close>

definition exampleTemplate :: "string \<Rightarrow> SectionedTemplate" where
  "exampleTemplate line =
     \<lparr>GetNamedSection =
        (\<lambda>sectionName. if sectionName = HostSection
                        then [\<lparr>LineContents = line, SourceLineIndex = 7\<rparr>] else []),
      fatals = []\<rparr>"

text \<open>
  Two requests: \<open>false\<close>, which fails at once, and \<open>echo hi\<close>. In the first run the main
  goroutine gets to \<^verbatim>\<open>wg.Add(1)\<close> before a goroutine finishes; in the second the
  goroutine of \<open>false\<close> finishes right after its \<^verbatim>\<open>go\<close> statement.
\<close>

definition twoRequests :: "executableAndArgs list" where
  "twoRequests = [\<lparr>executable = ''false'', args = []\<rparr>, \<lparr>executable = ''echo'', args = [''hi'']\<rparr>]"

definition lateFinish :: "event list" where
  "lateFinish = [MainStep, MainStep, MainStep, Finish 0, MainStep, Finish 1, MainStep]"

definition earlyFinish :: "event list" where
  "earlyFinish = [MainStep, Finish 0, MainStep, MainStep, MainStep, Finish 1, MainStep]"

text \<open>
  A template with two sections: the host section is line 7, an executable that is never
  closed, and the headers section is line 9, an empty executable followed by one whose
  inner text is a space.
\<close>

definition blankTemplate :: SectionedTemplate where
  "blankTemplate =
     \<lparr>GetNamedSection =
        (\<lambda>sectionName.
           if sectionName = HostSection
             then [\<lparr>LineContents = ''$(hostname'', SourceLineIndex = 7\<rparr>]
           else if sectionName = HeadersSection
             then [\<lparr>LineContents = ''X-Id: $() $( )'', SourceLineIndex = 9\<rparr>]
           else []),
      fatals = []\<rparr>"

section \<open>Properties of the concurrent executable runner\<close>

lemma finish_length: "length (finish T c os ex res i) = length res"
  by (simp add: finish_def)

lemma foldl_finish_length: "length (foldl (finish T c os ex) res sched) = length res"
  by (induction sched arbitrary: res) (simp_all add: finish_length)

text \<open>
  A slot is written by the goroutine of its own index and by no other: after a schedule
  without repetitions, slot \<open>i\<close> holds what goroutine \<open>i\<close> wrote, or its old value.
\<close>

lemma foldl_finish_nth:
  assumes "distinct sched" and "\<forall>j \<in> set sched. j < length res" and "i < length res"
  shows "foldl (finish T c os ex) res sched ! i =
           (if i \<in> set sched then goroutine T c (os i (ex ! i)) (res ! i) else res ! i)"
  using assms
proof (induction sched arbitrary: res)
  case Nil
  then show ?case by simp
next
  case (Cons j js)
  let ?res = "finish T c os ex res j"
  have len: "length ?res = length res" by (rule finish_length)
  from Cons.prems have IH: "foldl (finish T c os ex) ?res js ! i =
           (if i \<in> set js then goroutine T c (os i (ex ! i)) (?res ! i) else ?res ! i)"
    by (intro Cons.IH) (simp_all add: len)
  show ?case
  proof (cases "i = j")
    case True
    with Cons.prems have "i \<notin> set js" by simp
    moreover from True Cons.prems
    have "?res ! i = goroutine T c (os i (ex ! i)) (res ! i)" by (simp add: finish_def)
    ultimately show ?thesis using IH True by simp
  next
    case False
    with Cons.prems have "?res ! i = res ! i" by (simp add: finish_def)
    with IH False show ?thesis by simp
  qed
qed

lemma callExecutables_length:
  "length (callExecutables T c os sched ex) = length ex"
  by (simp add: callExecutables_def foldl_finish_length)

lemma callExecutables_nth:
  assumes "fair sched (length ex)" and "i < length ex"
  shows "callExecutables T c os sched ex ! i = goroutine T c (os i (ex ! i)) zeroOutput"
  using assms foldl_finish_nth [of sched "replicate (length ex) zeroOutput" i T c os ex]
  by (simp add: callExecutables_def fair_def)

lemma goroutine_exclusive:
  "(output (goroutine T c run zeroOutput) = []) \<noteq>
   (fatalMessage (goroutine T c run zeroOutput) = [])"
  by (simp add: goroutine_def zeroOutput_def Let_def split: option.splits)

lemma fair_example: "fair [2, 0, 3, 1] (length exampleRequests)"
  by (auto simp: fair_def exampleRequests_def)

text \<open>
  For every list of requests and every order in which the goroutines finish, the slice
  has as many results as there are requests once all have finished, and the result at
  index \<open>i\<close> is what the goroutine of request \<open>i\<close> wrote into an empty slot. It
  depends on the schedule and on the other requests in no way: another schedule and other
  requests that fare otherwise give the same result at \<open>i\<close> if request \<open>i\<close> fares the
  same.
\<close>

lemma callExecutables_results_by_index:
  assumes "fair schedule (length executables)"
  shows "length (callExecutables TimeoutNotSet config os schedule executables) =
           length executables \<and>
         (\<forall>i < length executables.
            callExecutables TimeoutNotSet config os schedule executables ! i =
              goroutine TimeoutNotSet config (os i (executables ! i)) zeroOutput) \<and>
         (\<forall>i schedule' os' executables'.
            i < length executables \<and> i < length executables' \<and>
            fair schedule' (length executables') \<and>
            os' i (executables' ! i) = os i (executables ! i) \<longrightarrow>
            callExecutables TimeoutNotSet config os' schedule' executables' ! i =
              callExecutables TimeoutNotSet config os schedule executables ! i)"
  using assms by (simp add: callExecutables_length callExecutables_nth)

lemma callExecutables_results_by_index_example:
  "fair [2, 0, 3, 1] (length exampleRequests) \<and>
   length (callExecutables (- 1) \<lparr>Timeout = 1\<rparr> exampleOs [2, 0, 3, 1] exampleRequests) = 4 \<and>
   callExecutables (- 1) \<lparr>Timeout = 1\<rparr> exampleOs [2, 0, 3, 1] exampleRequests ! 1 =
     \<lparr>output = [], fatalMessage = ''Executable /usr/bin/false error: exit status 1''\<rparr> \<and>
   callExecutables (- 1) \<lparr>Timeout = 1\<rparr> exampleOs [2, 0, 3, 1] exampleRequests ! 2 =
     \<lparr>output = ''hi'' @ [newline], fatalMessage = []\<rparr> \<and>
   callExecutables (- 1) \<lparr>Timeout = 1\<rparr> exampleOs [0, 1] (take 2 exampleRequests) ! 1 =
     callExecutables (- 1) \<lparr>Timeout = 1\<rparr> exampleOs [2, 0, 3, 1] exampleRequests ! 1"
proof -
  note inst = callExecutables_results_by_index
          [of "[2, 0, 3, 1]" exampleRequests "- 1" "\<lparr>Timeout = 1\<rparr>" exampleOs, OF fair_example]
  have fair2: "fair [0, 1] (length (take 2 exampleRequests))"
    by (auto simp: fair_def exampleRequests_def)
  from inst have "length (callExecutables (- 1) \<lparr>Timeout = 1\<rparr> exampleOs [2, 0, 3, 1] exampleRequests) = 4"
    by (simp add: exampleRequests_def)
  moreover from inst
  have "callExecutables (- 1) \<lparr>Timeout = 1\<rparr> exampleOs [2, 0, 3, 1] exampleRequests ! 1 =
     \<lparr>output = [], fatalMessage = ''Executable /usr/bin/false error: exit status 1''\<rparr>"
    "callExecutables (- 1) \<lparr>Timeout = 1\<rparr> exampleOs [2, 0, 3, 1] exampleRequests ! 2 =
     \<lparr>output = ''hi'' @ [newline], fatalMessage = []\<rparr>"
    by (simp_all add: exampleRequests_def exampleOs_def timeoutCtxErr_def goroutine_def
          zeroOutput_def)
  moreover from inst fair2
  have "callExecutables (- 1) \<lparr>Timeout = 1\<rparr> exampleOs [0, 1] (take 2 exampleRequests) ! 1 =
     callExecutables (- 1) \<lparr>Timeout = 1\<rparr> exampleOs [2, 0, 3, 1] exampleRequests ! 1"
    by (simp add: exampleRequests_def)
  ultimately show ?thesis using fair_example by simp
qed

text \<open>
  Claim C6. A request whose command exits with status zero before any cancellation or
  deadline and writes nothing to standard output gets the fatal message that the command
  produced no stdout output, and its output field stays empty.
\<close>

theorem callExecutables_no_stdout:
  assumes "fair schedule (length executables)" and "i < length executables"
    and "\<not> timeoutCtxErr TimeoutNotSet config (os i (executables ! i))"
    and "runErr (os i (executables ! i)) = None"
    and "stdoutStr (os i (executables ! i)) = []"
  shows "fatalMessage (callExecutables TimeoutNotSet config os schedule executables ! i) =
           ''Executable '' @ cmdString (os i (executables ! i)) @
             newline # ''Command produced no stdout output'' \<and>
         output (callExecutables TimeoutNotSet config os schedule executables ! i) = []"
  using assms
  by (simp add: callExecutables_nth goroutine_def zeroOutput_def)

theorem callExecutables_no_stdout_witness:
  "fair [2, 0, 3, 1] (length exampleRequests) \<and>
   fatalMessage (callExecutables (- 1) \<lparr>Timeout = 1\<rparr> exampleOs [2, 0, 3, 1] exampleRequests ! 0) =
     ''Executable /usr/bin/true'' @ newline # ''Command produced no stdout output'' \<and>
   output (callExecutables (- 1) \<lparr>Timeout = 1\<rparr> exampleOs [2, 0, 3, 1] exampleRequests ! 0) = []"
  using callExecutables_no_stdout
          [of "[2, 0, 3, 1]" exampleRequests 0 "- 1" "\<lparr>Timeout = 1\<rparr>" exampleOs]
    fair_example
  by (simp add: exampleRequests_def exampleOs_def timeoutCtxErr_def)

text \<open>
  Claim C7. After the runner has completed, every result has exactly one of its two
  fields non-empty: the output when the command exited with status zero in time and wrote
  to standard output, and the fatal message otherwise.
\<close>

theorem callExecutables_exactly_one_field:
  assumes "fair schedule (length executables)"
  shows "(\<forall>r \<in> set (callExecutables TimeoutNotSet config os schedule executables).
            (output r = []) \<noteq> (fatalMessage r = [])) \<and>
         (\<forall>i < length executables.
            (output (callExecutables TimeoutNotSet config os schedule executables ! i) \<noteq> []) =
            (\<not> timeoutCtxErr TimeoutNotSet config (os i (executables ! i)) \<and>
             runErr (os i (executables ! i)) = None \<and>
             stdoutStr (os i (executables ! i)) \<noteq> []))"
proof (intro conjI ballI allI impI)
  fix r
  assume "r \<in> set (callExecutables TimeoutNotSet config os schedule executables)"
  then obtain i where "i < length executables"
    and "r = callExecutables TimeoutNotSet config os schedule executables ! i"
    by (auto simp: in_set_conv_nth callExecutables_length)
  with assms have "r = goroutine TimeoutNotSet config (os i (executables ! i)) zeroOutput"
    by (simp add: callExecutables_nth)
  with goroutine_exclusive [of TimeoutNotSet config "os i (executables ! i)"]
  show "(output r = []) \<noteq> (fatalMessage r = [])"
    by simp
next
  fix i
  assume "i < length executables"
  with assms
  show "(output (callExecutables TimeoutNotSet config os schedule executables ! i) \<noteq> []) =
          (\<not> timeoutCtxErr TimeoutNotSet config (os i (executables ! i)) \<and>
           runErr (os i (executables ! i)) = None \<and>
           stdoutStr (os i (executables ! i)) \<noteq> [])"
    by (simp add: callExecutables_nth goroutine_def zeroOutput_def Let_def split: option.splits)
qed

theorem callExecutables_exactly_one_field_witness:
  "fair [2, 0, 3, 1] (length exampleRequests) \<and>
   callExecutables (- 1) \<lparr>Timeout = 1\<rparr> exampleOs [2, 0, 3, 1] exampleRequests ! 3
     \<in> set (callExecutables (- 1) \<lparr>Timeout = 1\<rparr> exampleOs [2, 0, 3, 1] exampleRequests) \<and>
   (output (callExecutables (- 1) \<lparr>Timeout = 1\<rparr> exampleOs [2, 0, 3, 1] exampleRequests ! 3) = [])
     \<noteq> (fatalMessage
           (callExecutables (- 1) \<lparr>Timeout = 1\<rparr> exampleOs [2, 0, 3, 1] exampleRequests ! 3) = []) \<and>
   output (callExecutables (- 1) \<lparr>Timeout = 1\<rparr> exampleOs [2, 0, 3, 1] exampleRequests ! 2) \<noteq> []"
proof -
  note inst = callExecutables_exactly_one_field
         [OF fair_example, of "- 1" "\<lparr>Timeout = 1\<rparr>" exampleOs]
  have mem: "callExecutables (- 1) \<lparr>Timeout = 1\<rparr> exampleOs [2, 0, 3, 1] exampleRequests ! 3
     \<in> set (callExecutables (- 1) \<lparr>Timeout = 1\<rparr> exampleOs [2, 0, 3, 1] exampleRequests)"
    by (rule nth_mem) (simp add: callExecutables_length exampleRequests_def)
  from inst
  have "output (callExecutables (- 1) \<lparr>Timeout = 1\<rparr> exampleOs [2, 0, 3, 1] exampleRequests ! 2)
          \<noteq> []"
    by (simp add: exampleRequests_def exampleOs_def timeoutCtxErr_def)
  with inst mem show ?thesis using fair_example by blast
qed

text \<open>
  Claim C10. Whenever the execution context is found cancelled or expired after the
  command has run, be it the caller's own context with no timeout configured, the result
  is the fatal message that the executable timed out after the configured number of
  seconds. The error of the command and what it wrote play no part, and no output is
  recorded.
\<close>

theorem callExecutables_timeout_masks:
  assumes "fair schedule (length executables)" and "i < length executables"
    and "ctxCancelled (os i (executables ! i)) \<or>
         (Timeout config \<noteq> TimeoutNotSet \<and> deadlinePassed (os i (executables ! i)))"
  shows "fatalMessage (callExecutables TimeoutNotSet config os schedule executables ! i) =
           ''Executable '' @ cmdString (os i (executables ! i)) @ '' timed out after '' @
             fmt_d (Timeout config) @ '' seconds'' \<and>
         output (callExecutables TimeoutNotSet config os schedule executables ! i) = []"
  using assms
  by (auto simp: callExecutables_nth goroutine_def zeroOutput_def timeoutCtxErr_def)

theorem callExecutables_timeout_masks_witness:
  "fair [2, 0, 3, 1] (length exampleRequests) \<and>
   runErr (cancelledOs 2 (exampleRequests ! 2)) = Some ''signal: killed'' \<and>
   stdoutStr (cancelledOs 2 (exampleRequests ! 2)) = ''partial'' \<and>
   fatalMessage
     (callExecutables (- 1) \<lparr>Timeout = - 1\<rparr> cancelledOs [2, 0, 3, 1] exampleRequests ! 2) =
     ''Executable echo timed out after -1 seconds'' \<and>
   output (callExecutables (- 1) \<lparr>Timeout = - 1\<rparr> cancelledOs [2, 0, 3, 1] exampleRequests ! 2) = []"
  using callExecutables_timeout_masks
          [of "[2, 0, 3, 1]" exampleRequests 2 cancelledOs "\<lparr>Timeout = - 1\<rparr>" "- 1"]
    fair_example
  by (simp add: exampleRequests_def cancelledOs_def fmt_d_def decimal.simps)

text \<open>
  Claim C3, as the code has it. A request whose command exits with status zero before any
  cancellation or deadline and writes a non-empty standard output gets that standard
  output, unchanged, as its output, and no fatal message. The output is not trimmed.
\<close>

theorem callExecutables_stdout_untrimmed:
  assumes "fair schedule (length executables)" and "i < length executables"
    and "\<not> timeoutCtxErr TimeoutNotSet config (os i (executables ! i))"
    and "runErr (os i (executables ! i)) = None"
    and "stdoutStr (os i (executables ! i)) \<noteq> []"
  shows "output (callExecutables TimeoutNotSet config os schedule executables ! i) =
           stdoutStr (os i (executables ! i)) \<and>
         fatalMessage (callExecutables TimeoutNotSet config os schedule executables ! i) = []"
  using assms
  by (simp add: callExecutables_nth goroutine_def zeroOutput_def)

theorem callExecutables_stdout_untrimmed_witness:
  "fair [2, 0, 3, 1] (length exampleRequests) \<and>
   output (callExecutables (- 1) \<lparr>Timeout = 1\<rparr> exampleOs [2, 0, 3, 1] exampleRequests ! 2) =
     ''hi'' @ [newline] \<and>
   fatalMessage
     (callExecutables (- 1) \<lparr>Timeout = 1\<rparr> exampleOs [2, 0, 3, 1] exampleRequests ! 2) = []"
  using callExecutables_stdout_untrimmed
          [of "[2, 0, 3, 1]" exampleRequests 2 "- 1" "\<lparr>Timeout = 1\<rparr>" exampleOs]
    fair_example
  by (simp add: exampleRequests_def exampleOs_def timeoutCtxErr_def)

text \<open>
  The claim as stated fails: \<open>echo hi\<close> exits with status zero in time and prints
  \<open>hi\<close> and a newline; the recorded output keeps the newline, which trimming removes.
\<close>

theorem callExecutables_trimmed_counterexample:
  "runErr (exampleOs 2 (exampleRequests ! 2)) = None \<and>
   \<not> timeoutCtxErr (- 1) \<lparr>Timeout = 1\<rparr> (exampleOs 2 (exampleRequests ! 2)) \<and>
   stdoutStr (exampleOs 2 (exampleRequests ! 2)) \<noteq> [] \<and>
   TrimSpace (stdoutStr (exampleOs 2 (exampleRequests ! 2))) = ''hi'' \<and>
   output (callExecutables (- 1) \<lparr>Timeout = 1\<rparr> exampleOs [2, 0, 3, 1] exampleRequests ! 2) \<noteq>
     TrimSpace (stdoutStr (exampleOs 2 (exampleRequests ! 2)))"
  using fair_example
  by (simp add: callExecutables_nth exampleRequests_def exampleOs_def timeoutCtxErr_def
        goroutine_def zeroOutput_def TrimSpace_def trimLeading.simps spaceRunes_def isSpace_def)

subsection \<open>The runner with its wait group\<close>

lemma runnerInv_initial:
  "runnerInv T c os ex
     \<lparr>started = 0, added = 0, wgCounter = 0, finished = [],
      executableResults = replicate (length ex) zeroOutput\<rparr>"
  by (simp add: runnerInv_def)

lemma wgRun_returns:
  assumes "wgRun T c os ex trace st = Returns r" and "runnerInv T c os ex st"
  shows "\<exists>schedule. fair schedule (length ex) \<and> r = callExecutables T c os schedule ex"
  using assms
proof (induction T c os ex trace st rule: wgRun.induct)
  case (1 T c os ex st)
  then show ?case by simp
next
  case (2 T c os ex trace st)
  show ?case
  proof (cases "added st < started st")
    case True
    let ?st = "st\<lparr>added := added st + 1, wgCounter := wgCounter st + 1\<rparr>"
    from True "2.prems"(1) have run: "wgRun T c os ex trace ?st = Returns r" by simp
    from True "2.prems"(2) have "runnerInv T c os ex ?st" by (simp add: runnerInv_def)
    from "2.IH"(1) [OF True run this] show ?thesis .
  next
    case False
    note no_add = this
    show ?thesis
    proof (cases "started st < length ex")
      case True
      let ?st = "st\<lparr>started := started st + 1\<rparr>"
      from True no_add "2.prems"(1) have run: "wgRun T c os ex trace ?st = Returns r" by simp
      from True "2.prems"(2) have "runnerInv T c os ex ?st"
        by (auto simp: runnerInv_def)
      from "2.IH"(2) [OF no_add True run this] show ?thesis .
    next
      case False
      with no_add "2.prems"(1) have zero: "wgCounter st = 0" and r: "r = executableResults st"
        by (simp_all split: if_splits)
      from False no_add "2.prems"(2) have all: "started st = length ex" "added st = length ex"
        by (simp_all add: runnerInv_def)
      with zero "2.prems"(2) have len: "length (finished st) = length ex"
        by (simp add: runnerInv_def)
      from "2.prems"(2) all have sub: "set (finished st) \<subseteq> {..<length ex}"
        and dist: "distinct (finished st)"
        by (simp_all add: runnerInv_def)
      from dist len have "card (set (finished st)) = card {..<length ex}"
        by (simp add: distinct_card)
      with sub have "set (finished st) = {..<length ex}"
        by (intro card_subset_eq) simp_all
      with dist have "fair (finished st) (length ex)" by (simp add: fair_def)
      moreover from "2.prems"(2) r have "r = callExecutables T c os (finished st) ex"
        by (simp add: runnerInv_def callExecutables_def)
      ultimately show ?thesis by blast
    qed
  qed
next
  case (3 T c os ex resultIndex trace st)
  show ?case
  proof (cases "resultIndex < started st \<and> resultIndex \<notin> set (finished st)")
    case False
    with "3.prems"(1) show ?thesis by simp
  next
    case True
    note may = this
    show ?thesis
    proof (cases "wgCounter st - 1 < 0")
      case True
      with may "3.prems"(1) show ?thesis by simp
    next
      case False
      let ?st = "st\<lparr>finished := finished st @ [resultIndex],
                    executableResults := finish T c os ex (executableResults st) resultIndex,
                    wgCounter := wgCounter st - 1\<rparr>"
      from may False "3.prems"(1) have run: "wgRun T c os ex trace ?st = Returns r" by simp
      from may "3.prems"(2) have "runnerInv T c os ex ?st"
        by (auto simp: runnerInv_def)
      from "3.IH" [OF may False run this] show ?thesis .
    qed
  qed
qed

text \<open>
  Whenever the runner returns, every goroutine has finished once, and the slice returned
  is the one that \<open>callExecutables\<close> gives for the order in which they finished: it has
  one result for each request, the result at index \<open>i\<close> being what the goroutine of
  request \<open>i\<close> wrote into an empty slot.
\<close>

lemma callExecutables_wg_returns:
  assumes "callExecutables_wg T c os trace ex = Returns r"
  shows "\<exists>schedule. fair schedule (length ex) \<and> r = callExecutables T c os schedule ex"
  using assms wgRun_returns [OF _ runnerInv_initial]
  by (simp add: callExecutables_wg_def)

lemma callExecutables_wg_by_index:
  assumes "callExecutables_wg T c os trace ex = Returns r"
  shows "length r = length ex \<and>
         (\<forall>i < length ex. r ! i = goroutine T c (os i (ex ! i)) zeroOutput)"
  using callExecutables_wg_returns [OF assms]
  by (auto simp: callExecutables_length callExecutables_nth)

text \<open>
  But the runner need not return. The goroutine of the first request may finish before
  the main goroutine has added to the counter for it, and then the program panics,
  whatever the requests are and whatever comes after.
\<close>

lemma callExecutables_wg_early_finish:
  assumes "ex \<noteq> []"
  shows "callExecutables_wg T c os (MainStep # Finish 0 # trace) ex = Panics"
  using assms by (simp add: callExecutables_wg_def)

text \<open>
  Claim C5 says that for every list of requests the runner returns a list of results of
  the same length, each result that of its own request, and that one request's failure
  never alters another request's slot. It fails on the code: \<^verbatim>\<open>wg.Add(1)\<close> (line 136)
  comes after the \<^verbatim>\<open>go\<close> statement (line 86), so the deferred \<^verbatim>\<open>wg.Done()\<close> (line
  87) of a goroutine that has finished by then finds the counter at zero. For the requests
  \<open>false\<close> and \<open>echo hi\<close>, when \<open>false\<close> fails before the main goroutine gets to line
  136, the program panics and no result is returned, none for \<open>echo hi\<close> either. When
  the main goroutine is faster, the two results are returned as the claim says.
\<close>

theorem callExecutables_wg_negative_counter:
  "callExecutables_wg (- 1) \<lparr>Timeout = 1\<rparr> exampleOs earlyFinish twoRequests = Panics \<and>
   callExecutables_wg (- 1) \<lparr>Timeout = 1\<rparr> exampleOs lateFinish twoRequests =
     Returns [\<lparr>output = [], fatalMessage = ''Executable /usr/bin/false error: exit status 1''\<rparr>,
              \<lparr>output = ''hi'' @ [newline], fatalMessage = []\<rparr>]"
  by (simp add: callExecutables_wg_def earlyFinish_def lateFinish_def twoRequests_def
        finish_def goroutine_def timeoutCtxErr_def exampleOs_def zeroOutput_def)

section \<open>Properties of the backend command renderer\<close>

lemma splitFrom_piece:
  "piece \<noteq> [] \<Longrightarrow> \<exists>first rest. splitFrom s sep piece = first # rest \<and> first \<noteq> []"
proof (induction s sep piece rule: splitFrom.induct)
  case (1 s sep piece)
  show ?case
  proof (cases "sep = [] \<or> s = []")
    case True
    with 1 show ?thesis by (simp add: splitFrom.simps [of s sep piece])
  next
    case False
    show ?thesis
    proof (cases "prefix sep s")
      case True
      with False 1 show ?thesis by (simp add: splitFrom.simps [of s sep piece])
    next
      case no: False
      with False 1 show ?thesis by (simp add: splitFrom.simps [of s sep piece])
    qed
  qed
qed

text \<open>A trimmed string that is not empty starts with a character that is not white space.\<close>

lemma trimLeading_suffix: "suffix (trimLeading runes s) s"
proof (induction runes s rule: trimLeading.induct)
  case (1 runes s)
  show ?case
  proof (cases "find (\<lambda>r. r \<noteq> [] \<and> prefix r s) runes")
    case None
    then show ?thesis by (simp add: trimLeading.simps [of runes s])
  next
    case (Some r)
    with 1 have "suffix (trimLeading runes (drop (length r) s)) (drop (length r) s)" by simp
    then have "suffix (trimLeading runes (drop (length r) s)) s"
      using suffix_drop suffix_order.trans by blast
    with Some show ?thesis by (simp add: trimLeading.simps [of runes s])
  qed
qed

lemma trimLeading_done:
  assumes "r \<in> set runes" and "r \<noteq> []"
  shows "\<not> prefix r (trimLeading runes s)"
  using assms
proof (induction runes s rule: trimLeading.induct)
  case (1 runes s)
  show ?case
  proof (cases "find (\<lambda>r. r \<noteq> [] \<and> prefix r s) runes")
    case None
    with "1.prems" have "\<not> prefix r s" by (auto simp: find_None_iff)
    with None show ?thesis by (simp add: trimLeading.simps [of runes s])
  next
    case (Some r')
    with 1 show ?thesis by (simp add: trimLeading.simps [of runes s])
  qed
qed

text \<open>
  White space beyond ASCII is trimmed as well, here a no-break space (U+00A0) in front and
  a line separator (U+2028) behind; a byte that is no white space stops the trimming.
\<close>

lemma TrimSpace_unicode:
  "TrimSpace ([CHR 0xC2, CHR 0xA0] @ '' a b '' @ [CHR 0xE2, CHR 0x80, CHR 0xA8, newline]) = ''a b'' \<and>
   TrimSpace ([CHR 0xA0] @ ''a'' @ [CHR 0xC2]) = [CHR 0xA0] @ ''a'' @ [CHR 0xC2]"
  by (simp add: TrimSpace_def trimLeading.simps spaceRunes_def)

lemma TrimSpace_hd:
  assumes "TrimSpace s \<noteq> []"
  shows "\<not> isSpace (hd (TrimSpace s))"
proof
  assume sp: "isSpace (hd (TrimSpace s))"
  let ?d = "trimLeading spaceRunes s"
  have "suffix (rev (TrimSpace s)) (rev ?d)"
    by (simp add: TrimSpace_def trimLeading_suffix)
  then have "prefix (TrimSpace s) ?d" by (simp add: suffix_to_prefix)
  with assms obtain c t u where d: "?d = c # t" and c: "TrimSpace s = c # u"
    by (cases "TrimSpace s"; cases ?d) auto
  with sp have "[c] \<in> set spaceRunes" by (auto simp: isSpace_def spaceRunes_def)
  from trimLeading_done [OF this, of s] d show False by simp
qed

lemma Split_space_first:
  assumes "s \<noteq> []" and "\<not> isSpace (hd s)"
  shows "\<exists>first rest. Split s '' '' = first # rest \<and> first \<noteq> []"
proof -
  from assms obtain c cs where s: "s = c # cs" and c: "c \<noteq> CHR '' ''"
    by (cases s) (auto simp: isSpace_def)
  then have "Split s '' '' = splitFrom cs '' '' [c]"
    by (simp add: Split_def splitFrom.simps [of "c # cs"])
  with splitFrom_piece [of "[c]" cs "'' ''"] show ?thesis by simp
qed

lemma backendCmd_command_never_empty:
  "backendCmd render UnsplitLineOnSeparator backend \<noteq> Inl (EmptyBackendCommand templateOutput)"
proof (cases "getTemplate backend = []")
  case True
  then show ?thesis by (simp add: backendCmd_def)
next
  case False
  show ?thesis
  proof (cases "render (getTemplate backend)")
    case (Inl err)
    with False show ?thesis by (cases err) (simp_all add: backendCmd_def)
  next
    case (Inr out)
    show ?thesis
    proof (cases "TrimSpace out = []")
      case True
      with False Inr show ?thesis by (simp add: backendCmd_def)
    next
      case nonempty: False
      then obtain first rest
        where "Split (TrimSpace out) '' '' = first # rest" and "first \<noteq> []"
        using Split_space_first [OF nonempty TrimSpace_hd [OF nonempty]] by blast
      with False Inr nonempty show ?thesis by (simp add: backendCmd_def Let_def)
    qed
  qed
qed

text \<open>
  Claim C9. A rendered template output that is not empty after trimming has a non-empty
  first piece when split at spaces, so \<^verbatim>\<open>CallBackend\<close> never returns the error
  ``Empty backend command'': that branch cannot be reached.
\<close>

theorem CallBackend_command_never_empty:
  "(TrimSpace templateOutputBuilder \<noteq> [] \<longrightarrow>
      (\<exists>command arguments.
         Split (TrimSpace templateOutputBuilder) '' '' = command # arguments \<and> command \<noteq> [])) \<and>
   CallBackend render UnsplitLineOnSeparator run backend \<noteq>
     Inl (EmptyBackendCommand templateOutput)"
proof
  show "TrimSpace templateOutputBuilder \<noteq> [] \<longrightarrow>
      (\<exists>command arguments.
         Split (TrimSpace templateOutputBuilder) '' '' = command # arguments \<and> command \<noteq> [])"
    using Split_space_first TrimSpace_hd by blast
  show "CallBackend render UnsplitLineOnSeparator run backend \<noteq>
     Inl (EmptyBackendCommand templateOutput)"
    using backendCmd_command_never_empty [of render UnsplitLineOnSeparator backend templateOutput]
    by (auto simp: CallBackend_def Let_def split: sum.splits option.splits prod.splits)
qed

theorem CallBackend_command_never_empty_witness:
  "TrimSpace ''  curl  localhost '' \<noteq> [] \<and>
   (\<exists>command arguments.
      Split (TrimSpace ''  curl  localhost '') '' '' = command # arguments \<and> command \<noteq> []) \<and>
   CallBackend (\<lambda>t. Inr ''  curl  localhost '') (\<lambda>xs sep. xs) exampleRun ''curl'' \<noteq>
     Inl (EmptyBackendCommand ''curl  localhost'')"
proof -
  have "TrimSpace ''  curl  localhost '' \<noteq> []"
    by (simp add: TrimSpace_def trimLeading.simps spaceRunes_def isSpace_def)
  with CallBackend_command_never_empty
         [of "''  curl  localhost ''" "\<lambda>t. Inr ''  curl  localhost ''" "\<lambda>xs sep. xs"
             exampleRun "''curl''" "''curl  localhost''"]
  show ?thesis by blast
qed

text \<open>What is spawned does not depend on \<^verbatim>\<open>UnsplitLineOnSeparator\<close> at all.\<close>

lemma backendCmd_ignores_unsplit:
  "backendCmd render UnsplitLineOnSeparator backend = backendCmd render (\<lambda>xs sep. xs) backend"
  by (simp add: backendCmd_def Let_def split: sum.splits templateError.splits list.splits)

text \<open>
  Claim C2 says that an argument in quotes with white space inside reaches the backend
  process as one argument, thanks to the re-merge after the split. It fails on the code.
  The arguments are re-merged twice, for the double and for the single quote, but the
  merged list is dropped: \<^verbatim>\<open>exec.CommandContext\<close> is given \<^verbatim>\<open>args\<close>, the pieces of the
  split at spaces. Whatever \<^verbatim>\<open>UnsplitLineOnSeparator\<close> does, the header
  \<open>"Accept: text/plain"\<close> of the rendered \<open>httpie\<close> command reaches the process as two
  arguments.
\<close>

theorem backendCmd_drops_unsplit:
  \<open>backendCmd exampleRender UnsplitLineOnSeparator ''httpie'' =
     Inr (''http'', [''--ignore-stdin'', ''localhost'', [], ''"Accept:'', ''text/plain"''])\<close>
  by (simp add: backendCmd_def getTemplate_def exampleRender_def TrimSpace_def trimLeading.simps spaceRunes_def isSpace_def
        Split_def splitFrom.simps Let_def)

section \<open>Properties of the executable extractor\<close>

text \<open>
  For every match whose captured inner text is the empty string, the extractor records the
  fatal ``Empty executable'' against the source line of that match and adds no request,
  whatever the tokenizer is.
\<close>

lemma captureMatch_empty_executable:
  assumes "executableRe_FindStringSubmatch executableWithParens = [whole, []]"
  shows "captureMatch tokenizeLine templateLine (s, executables) executableWithParens =
           Some (SetFatalMessage s ''Empty executable'' (SourceLineIndex templateLine),
                 executables)"
  using assms by (simp add: captureMatch_def)

lemma captureMatch_empty_executable_example:
  "executableRe_FindStringSubmatch ''m$()'' = [''$()'', []] \<and>
   captureMatch TokenizeLine \<lparr>LineContents = ''am$()b'', SourceLineIndex = 7\<rparr>
       (exampleTemplate ''am$()b'', []) ''m$()'' =
     Some (SetFatalMessage (exampleTemplate ''am$()b'') ''Empty executable'' 7, []) \<and>
   map_option (\<lambda>st. (fatals (fst st), snd st))
       (captureExecutableAndArgs TokenizeLine (exampleTemplate ''am$()b'')) =
     Some ([(''Empty executable'', 7)], [])"
proof -
  have sub: "executableRe_FindStringSubmatch ''m$()'' = [''$()'', []]"
    by simp
  have "executableExpressionRe_FindAllString ''am$()b'' = [''m$()'']"
    by (simp add: executableExpressionRe_FindAllString.simps matchExpression_def)
  then have whole: "map_option (\<lambda>st. (fatals (fst st), snd st))
       (captureExecutableAndArgs TokenizeLine (exampleTemplate ''am$()b'')) =
     Some ([(''Empty executable'', 7)], [])"
    by (simp add: captureExecutableAndArgs_def includedSections_def captureSection_def
          captureLine_def exampleTemplate_def captureMatch_def SetFatalMessage_def)
  from captureMatch_empty_executable [OF sub, of TokenizeLine
         "\<lparr>LineContents = ''am$()b'', SourceLineIndex = 7\<rparr>" "exampleTemplate ''am$()b''" "[]"]
    sub whole
  show ?thesis by simp
qed

text \<open>
  A capture of one space passes the guard. No tokenizer makes the outcome the one of an
  empty capture, unless ``Empty executable'' is its own error for a blank string.
\<close>

lemma captureMatch_blank:
  assumes "tokenizeLine '' '' \<noteq> Inl ''Empty executable''"
  shows "captureMatch tokenizeLine templateLine (s, executables) ''$( )'' \<noteq>
           Some (SetFatalMessage s ''Empty executable'' (SourceLineIndex templateLine),
                 executables)"
proof (cases "tokenizeLine '' ''")
  case (Inl err)
  with assms have "fatals (SetFatalMessage s err (SourceLineIndex templateLine)) \<noteq>
      fatals (SetFatalMessage s ''Empty executable'' (SourceLineIndex templateLine))"
    by (simp add: SetFatalMessage_def)
  then have "SetFatalMessage s err (SourceLineIndex templateLine) \<noteq>
      SetFatalMessage s ''Empty executable'' (SourceLineIndex templateLine)"
    by metis
  with Inl show ?thesis by (simp add: captureMatch_def)
next
  case (Inr toks)
  then show ?thesis by (cases toks) (simp_all add: captureMatch_def)
qed

text \<open>
  Claim C4 says that a match whose inner text is empty after trimming white space gets
  the fatal ``Empty executable'' against its source line, and no request. It fails on the
  code. Line 57 compares the capture with the empty string as it is, so the guard, which
  catches \<open>$()\<close>, misses \<open>$( )\<close>: the capture of one space goes on to the tokenizer,
  and line 68 takes the first token with no check that there is one. On the template
  above the malformed executable of line 7 and the empty executable of line 9 get their
  fatals; what becomes of \<open>$( )\<close> is up to the tokenizer, whatever it is: its error is
  recorded as the fatal, or it finds no token and the extractor panics, or its tokens
  become a request. The tokenizer that the specification describes finds no token in a
  space, so with it the extractor panics.
\<close>

theorem captureExecutableAndArgs_blank_capture:
  "map_option (\<lambda>st. (fatals (fst st), snd st))
       (captureExecutableAndArgs tokenizeLine blankTemplate) =
     (case tokenizeLine '' '' of
        Inl err \<Rightarrow>
          Some ([(''Malformed executable'', 7), (''Empty executable'', 9), (err, 9)], [])
      | Inr [] \<Rightarrow> None
      | Inr (exe # rest) \<Rightarrow>
          Some ([(''Malformed executable'', 7), (''Empty executable'', 9)],
                [\<lparr>executable = exe, args = rest\<rparr>])) \<and>
   TrimSpace '' '' = [] \<and>
   TokenizeLine '' '' = Inr [] \<and>
   captureExecutableAndArgs TokenizeLine blankTemplate = None"
proof -
  have host: "executableExpressionRe_FindAllString ''$(hostname'' = [''$(hostname'']"
    by (simp add: executableExpressionRe_FindAllString.simps matchExpression_def)
  have headers: "executableExpressionRe_FindAllString ''X-Id: $() $( )'' = [''$()'', ''$( )'']"
    by (simp add: executableExpressionRe_FindAllString.simps matchExpression_def)
  have tok: "TokenizeLine '' '' = Inr []"
    by (simp add: TokenizeLine_def isSpace_def)
  have trim: "TrimSpace '' '' = []"
    by (simp add: TrimSpace_def trimLeading.simps spaceRunes_def)
  have general: "map_option (\<lambda>st. (fatals (fst st), snd st))
       (captureExecutableAndArgs t blankTemplate) =
     (case t '' '' of
        Inl err \<Rightarrow>
          Some ([(''Malformed executable'', 7), (''Empty executable'', 9), (err, 9)], [])
      | Inr [] \<Rightarrow> None
      | Inr (exe # rest) \<Rightarrow>
          Some ([(''Malformed executable'', 7), (''Empty executable'', 9)],
                [\<lparr>executable = exe, args = rest\<rparr>]))" for t
    using host headers
    by (simp add: captureExecutableAndArgs_def includedSections_def captureSection_def
          captureLine_def blankTemplate_def captureMatch_def SetFatalMessage_def
          split: sum.splits list.splits)
  from general [of TokenizeLine] tok
  have "captureExecutableAndArgs TokenizeLine blankTemplate = None" by simp
  with general [of tokenizeLine] tok trim show ?thesis by simp
qed

section \<open>Properties of the line lexer\<close>

text \<open>
  The lexer reads runes: a byte that starts no UTF-8 encoding comes back as U+FFFD, in the
  content and in the raw content of the token, and an encoded rune stays as it is.
\<close>

lemma runesOf_invalid:
  "runesOf ([CHR 0xFF] @ ''a'' @ [CHR 0xC3, CHR 0xA9, CHR 0xE2, CHR 0x80] @ ''b'') =
     [CHR 0xEF, CHR 0xBF, CHR 0xBD] @ ''a'' @ [CHR 0xC3, CHR 0xA9] @
     [CHR 0xEF, CHR 0xBF, CHR 0xBD, CHR 0xEF, CHR 0xBF, CHR 0xBD] @ ''b''"
  by code_simp

lemma Tokenize_invalid:
  "Tokenize ([CHR 0xFF] @ ''${'' @ [CHR 0xC3, CHR 0xA9] @ ''}'') envVarToken =
     Some ([\<lparr>tokenType = textToken, content = [CHR 0xEF, CHR 0xBF, CHR 0xBD],
              fatalContent = [CHR 0xEF, CHR 0xBF, CHR 0xBD]\<rparr>,
            \<lparr>tokenType = envVarToken, content = [CHR 0xC3, CHR 0xA9],
              fatalContent = ''${'' @ [CHR 0xC3, CHR 0xA9] @ ''}''\<rparr>], [])"
  by code_simp

lemma ReplaceAll_Nil [simp]: "old \<noteq> [] \<Longrightarrow> ReplaceAll [] old new = []"
  by (simp add: ReplaceAll.simps)

lemma ReplaceAll_match:
  "old \<noteq> [] \<Longrightarrow> ReplaceAll (old @ s) old new = new @ ReplaceAll s old new"
  by (subst ReplaceAll.simps) simp

lemma ReplaceAll_skip:
  "old \<noteq> [] \<Longrightarrow> \<not> prefix old (c # s) \<Longrightarrow> ReplaceAll (c # s) old new = c # ReplaceAll s old new"
  by (subst ReplaceAll.simps) simp

lemma ReplaceAll_append:
  assumes "old \<noteq> []" and "\<forall>k. 0 < k \<and> k < length old \<longrightarrow> \<not> prefix (drop k old) ys"
  shows "ReplaceAll (xs @ ys) old new = ReplaceAll xs old new @ ReplaceAll ys old new"
  using assms
proof (induction xs old new rule: ReplaceAll.induct)
  case (1 s old new)
  show ?case
  proof (cases "s = []")
    case True
    with 1 show ?thesis by simp
  next
    case False
    then obtain c cs where s: "s = c # cs" by (cases s) auto
    show ?thesis
    proof (cases "prefix old s")
      case True
      then obtain r where r: "s = old @ r" by (auto simp: prefix_def)
      with True False 1 have "ReplaceAll (r @ ys) old new = ReplaceAll r old new @ ReplaceAll ys old new"
        by simp
      with r 1(3) show ?thesis by (simp add: ReplaceAll_match)
    next
      case no: False
      have "\<not> prefix old (s @ ys)"
      proof
        assume "prefix old (s @ ys)"
        with no obtain us where us: "old = s @ us" "prefix us ys"
          by (auto simp: prefix_append)
        with no have "us \<noteq> []" by auto
        with us False have "0 < length s \<and> length s < length old" "drop (length s) old = us"
          by simp_all
        with 1(4) us(2) show False by metis
      qed
      with no s 1 False show ?thesis
        by (simp add: ReplaceAll_skip)
    qed
  qed
qed

lemma ReplaceAll_append_2:
  assumes "\<not> prefix [b] ys"
  shows "ReplaceAll (xs @ ys) [a, b] new = ReplaceAll xs [a, b] new @ ReplaceAll ys [a, b] new"
proof (rule ReplaceAll_append)
  show "\<forall>k. 0 < k \<and> k < length [a, b] \<longrightarrow> \<not> prefix (drop k [a, b]) ys"
    using assms by (auto simp: less_Suc_eq)
qed simp

lemma ReplaceAll_append_3:
  assumes "\<not> prefix [b, c] ys" and "\<not> prefix [c] ys"
  shows "ReplaceAll (xs @ ys) [a, b, c] new =
           ReplaceAll xs [a, b, c] new @ ReplaceAll ys [a, b, c] new"
proof (rule ReplaceAll_append)
  show "\<forall>k. 0 < k \<and> k < length [a, b, c] \<longrightarrow> \<not> prefix (drop k [a, b, c]) ys"
    using assms by (auto simp: less_Suc_eq)
qed simp

lemmas ReplaceAll_block = ReplaceAll_match [of "[a, b, c]" for a b c, simplified]
  ReplaceAll_match [of "[a, b]" for a b, simplified] ReplaceAll_skip

lemma pass_envVar:
  "ReplaceAll (X @ ''`${'' @ Y) ''`${'' ''${'' = ReplaceAll X ''`${'' ''${'' @ ''${'' @ ReplaceAll Y ''`${'' ''${''"
  "ReplaceAll (X @ ''`$('' @ Y) ''`${'' ''${'' = ReplaceAll X ''`${'' ''${'' @ ''`$('' @ ReplaceAll Y ''`${'' ''${''"
  "ReplaceAll (X @ ''`#'' @ Y) ''`${'' ''${'' = ReplaceAll X ''`${'' ''${'' @ ''`#'' @ ReplaceAll Y ''`${'' ''${''"
  by (simp_all add: ReplaceAll_append_3 ReplaceAll_block)

lemma pass_executable:
  "ReplaceAll (X @ ''${'' @ Y) ''`$('' ''$('' = ReplaceAll X ''`$('' ''$('' @ ''${'' @ ReplaceAll Y ''`$('' ''$(''"
  "ReplaceAll (X @ ''`$('' @ Y) ''`$('' ''$('' = ReplaceAll X ''`$('' ''$('' @ ''$('' @ ReplaceAll Y ''`$('' ''$(''"
  "ReplaceAll (X @ ''`#'' @ Y) ''`$('' ''$('' = ReplaceAll X ''`$('' ''$('' @ ''`#'' @ ReplaceAll Y ''`$('' ''$(''"
  by (simp_all add: ReplaceAll_append_3 ReplaceAll_block)

lemma pass_comment:
  "ReplaceAll (X @ ''${'' @ Y) ''`#'' ''#'' = ReplaceAll X ''`#'' ''#'' @ ''${'' @ ReplaceAll Y ''`#'' ''#''"
  "ReplaceAll (X @ ''$('' @ Y) ''`#'' ''#'' = ReplaceAll X ''`#'' ''#'' @ ''$('' @ ReplaceAll Y ''`#'' ''#''"
  "ReplaceAll (X @ ''`#'' @ Y) ''`#'' ''#'' = ReplaceAll X ''`#'' ''#'' @ ''#'' @ ReplaceAll Y ''`#'' ''#''"
  by (simp_all add: ReplaceAll_append_2 ReplaceAll_block)


lemma HasSuffix_after_block:
  assumes "p \<noteq> []" and "last p \<noteq> backslash" and "last p \<noteq> backtick"
  shows "HasSuffix (A @ p @ B) [backslash, backtick] = HasSuffix B [backslash, backtick]"
proof -
  from assms obtain l q where p: "p = q @ [l]" and l: "l \<noteq> backslash" "l \<noteq> backtick"
    by (cases p rule: rev_cases) auto
  show ?thesis
  proof (cases "rev B")
    case Nil
    with p l show ?thesis by (simp add: HasSuffix_def)
  next
    case (Cons x xs)
    with p l show ?thesis by (cases xs) (simp_all add: HasSuffix_def)
  qed
qed

lemma TrimSuffix_append:
  assumes "HasSuffix B suf"
  shows "HasSuffix (A @ B) suf" and "TrimSuffix (A @ B) suf = A @ TrimSuffix B suf"
proof -
  from assms have len: "length suf \<le> length B"
    using prefix_length_le [of "rev suf" "rev B"] by (simp add: HasSuffix_def)
  from assms show "HasSuffix (A @ B) suf"
    by (simp add: HasSuffix_def)
  with assms len show "TrimSuffix (A @ B) suf = A @ TrimSuffix B suf"
    by (simp add: TrimSuffix_def)
qed

lemma unescape_tail:
  assumes "p \<noteq> []" and "last p \<noteq> backslash" and "last p \<noteq> backtick"
  shows "(if b \<and> HasSuffix (A @ p @ B) [backslash, backtick]
          then TrimSuffix (A @ p @ B) [backslash, backtick] @ [backtick] else A @ p @ B) =
         A @ p @ (if b \<and> HasSuffix B [backslash, backtick]
                  then TrimSuffix B [backslash, backtick] @ [backtick] else B)"
  using TrimSuffix_append(2) [of B "[backslash, backtick]" "A @ p"]
  by (simp add: HasSuffix_after_block [OF assms])

lemma unescapeTextContent_passes:
  "unescapeTextContent s allowedToken b =
     (if b \<and> HasSuffix (passes allowedToken s) [backslash, backtick]
      then TrimSuffix (passes allowedToken s) [backslash, backtick] @ [backtick]
      else passes allowedToken s)"
  by (simp only: unescapeTextContent_def passes_def Let_def)

lemma passes_escaped_prefix:
  assumes "recognised p allowedToken"
  shows "passes allowedToken (X @ backtick # p @ Y) =
           passes allowedToken X @ p @ passes allowedToken Y"
proof -
  consider (env) "p = ''${''" "allowedToken \<ge> 4"
    | (exe) "p = ''$(''" "allowedToken \<ge> 3" | (com) "p = ''#''"
    using assms by (auto simp: recognised_def)
  then show ?thesis
  proof cases
    case env
    then show ?thesis
      using pass_envVar(1) [of X Y] pass_executable(1) pass_comment(1)
      by (simp add: passes_def Let_def)
  next
    case exe
    then show ?thesis
      using pass_envVar(2) [of X Y] pass_executable(2) pass_comment(2)
      by (simp add: passes_def Let_def)
  next
    case com
    then show ?thesis
      using pass_envVar(3) [of X Y] pass_executable(3) pass_comment(3)
      by (simp add: passes_def Let_def)
  qed
qed

lemma unescape_escaped_prefix:
  assumes "recognised p allowedToken"
  shows "unescapeTextContent (X @ backtick # p @ Y) allowedToken b =
           unescapeTextContent X allowedToken False @ p @ unescapeTextContent Y allowedToken b"
proof -
  let ?X = "passes allowedToken X" and ?Y = "passes allowedToken Y"
  from assms have p: "p \<noteq> []" "last p \<noteq> backslash" "last p \<noteq> backtick"
    by (auto simp: recognised_def)
  have "unescapeTextContent (X @ backtick # p @ Y) allowedToken b =
          (if b \<and> HasSuffix (?X @ p @ ?Y) [backslash, backtick]
           then TrimSuffix (?X @ p @ ?Y) [backslash, backtick] @ [backtick]
           else ?X @ p @ ?Y)"
    by (simp only: unescapeTextContent_passes passes_escaped_prefix [OF assms])
  also have "\<dots> = ?X @ p @ (if b \<and> HasSuffix ?Y [backslash, backtick]
                            then TrimSuffix ?Y [backslash, backtick] @ [backtick] else ?Y)"
    by (rule unescape_tail [OF p])
  also have "\<dots> = unescapeTextContent X allowedToken False @ p @
                    unescapeTextContent Y allowedToken b"
    by (simp add: unescapeTextContent_passes)
  finally show ?thesis .
qed

lemma recognised_cases:
  assumes "recognised p allowedToken"
  obtains "p = ''${''" | "p = ''$(''" | "p = ''#''"
  using assms by (auto simp: recognised_def)

lemma recognised_shape:
  assumes "recognised p allowedToken"
  shows "\<exists>h t. p = h # t \<and> CHR ''$'' \<notin> set t \<and> CHR ''#'' \<notin> set t"
  using assms by (cases rule: recognised_cases) simp_all

lemma isStartOfToken_plain:
  assumes "c \<noteq> CHR ''$''" and "c \<noteq> CHR ''#''"
  shows "\<not> isStartOfToken envVarPrefix prev (c # rest)"
    and "\<not> isStartOfToken executablePrefix prev (c # rest)"
    and "\<not> isStartOfToken commentPrefix prev (c # rest)"
  using assms by (simp_all add: isStartOfToken_def HasPrefix_def)

lemma isStartOfToken_escaped:
  assumes "\<not> HasSuffix pre [backslash]"
  shows "\<not> isStartOfToken tokenTypePrefix (pre @ [backtick]) rest"
  using assms by (simp add: isStartOfToken_def HasSuffix_def)

lemma text_step:
  assumes "currentTokenType st = textToken" and "idx st = int (length A)"
    and "\<not> isStartOfToken envVarPrefix A (c # C)"
    and "\<not> isStartOfToken executablePrefix A (c # C)"
    and "\<not> isStartOfToken commentPrefix A (c # C)"
  shows "loopBody (A @ c # C) allowedToken st =
           Continue (st\<lparr>currentContent := currentContent st @ [c], idx := idx st + 1\<rparr>)"
  using assms
  by (simp add: loopBody_def slice_from_def slice_to_def startTokens_def appendRune_def slice_def)

lemma text_loop_step:
  assumes "currentTokenType st = textToken" and "idx st = int (length A)"
    and "\<not> isStartOfToken envVarPrefix A (c # C)"
    and "\<not> isStartOfToken executablePrefix A (c # C)"
    and "\<not> isStartOfToken commentPrefix A (c # C)"
  shows "Tokenize_loop (A @ c # C) allowedToken st =
           Tokenize_loop (A @ c # C) allowedToken
             (st\<lparr>currentContent := currentContent st @ [c], idx := idx st + 1\<rparr>)"
  using assms(2) text_step [OF assms, of allowedToken]
  by (subst Tokenize_loop.simps) simp

text \<open>
  Passes through the loop add up, and the loop started before some passes returns what
  the loop started after them returns.
\<close>

lemma lexerAfter_add:
  "lexerAfter input allowedToken (m + n) st =
     (case lexerAfter input allowedToken m st of
        None \<Rightarrow> None
      | Some s \<Rightarrow> lexerAfter input allowedToken n s)"
  by (induction m arbitrary: st) (simp_all split: control.splits)

lemma lexerAfter_loop:
  assumes "lexerAfter input allowedToken n st = Some s"
  shows "Tokenize_loop input allowedToken st = Tokenize_loop input allowedToken s"
  using assms
proof (induction n arbitrary: st)
  case 0
  then show ?case by simp
next
  case (Suc n)
  from Suc.prems obtain st' where guard: "idx st < int (length input)"
    and body: "loopBody input allowedToken st = Continue st'"
    and rest: "lexerAfter input allowedToken n st' = Some s"
    by (auto split: if_splits control.splits)
  from guard body
  have "Tokenize_loop input allowedToken st = Tokenize_loop input allowedToken st'"
    by (subst Tokenize_loop.simps) simp
  with Suc.IH [OF rest] show ?case by simp
qed

lemma plain_passes:
  assumes "currentTokenType st = textToken" and "idx st = int (length A)"
    and "CHR ''$'' \<notin> set B" and "CHR ''#'' \<notin> set B"
  shows "lexerAfter (A @ B @ C) allowedToken (length B) st =
           Some (st\<lparr>currentContent := currentContent st @ B,
                    idx := idx st + int (length B)\<rparr>)"
  using assms
proof (induction B arbitrary: A st)
  case Nil
  show ?case by simp
next
  case (Cons c B)
  let ?st = "st\<lparr>currentContent := currentContent st @ [c], idx := idx st + 1\<rparr>"
  from Cons.prems have c: "c \<noteq> CHR ''$''" "c \<noteq> CHR ''#''" by auto
  from Cons.prems(1,2) isStartOfToken_plain [OF c]
  have body: "loopBody (A @ c # B @ C) allowedToken st = Continue ?st"
    by (rule text_step)
  from Cons.prems
  have "lexerAfter ((A @ [c]) @ B @ C) allowedToken (length B) ?st =
          Some (?st\<lparr>currentContent := currentContent ?st @ B,
                    idx := idx ?st + int (length B)\<rparr>)"
    by (intro Cons.IH) simp_all
  with body Cons.prems(2) show ?case by (simp add: add.assoc)
qed

text \<open>
  The passes over an escaped prefix: reached in text state, the backtick and the prefix
  join the current content, and no token starts.
\<close>

lemma escaped_passes:
  assumes rec: "recognised p allowedToken"
    and unescaped: "\<not> HasSuffix pre [backslash]"
    and st: "currentTokenType st = textToken" "idx st = int (length pre)"
  shows "lexerAfter (pre @ backtick # p @ post) allowedToken (1 + length p) st =
           Some (st\<lparr>currentContent := currentContent st @ backtick # p,
                    idx := idx st + 1 + int (length p)\<rparr>)"
proof -
  from recognised_shape [OF rec]
  obtain h t where p: "p = h # t" and t: "CHR ''$'' \<notin> set t" "CHR ''#'' \<notin> set t"
    by blast
  define L where "L = pre @ backtick # h # t @ post"
  define s1 where "s1 = st\<lparr>currentContent := currentContent st @ [backtick], idx := idx st + 1\<rparr>"
  define s2 where "s2 = s1\<lparr>currentContent := currentContent s1 @ [h], idx := idx s1 + 1\<rparr>"
  define s3 where "s3 = s2\<lparr>currentContent := currentContent s2 @ t,
    idx := idx s2 + int (length t)\<rparr>"
  have L1: "pre @ backtick # (h # t @ post) = L"
    and L2: "(pre @ [backtick]) @ h # (t @ post) = L"
    and L3: "(pre @ [backtick, h]) @ t @ post = L"
    by (simp_all add: L_def)
  have b1: "loopBody L allowedToken st = Continue s1"
    unfolding s1_def L1 [symmetric]
    by (rule text_step) (use st in \<open>simp_all add: isStartOfToken_plain\<close>)
  have b2: "loopBody L allowedToken s1 = Continue s2"
    unfolding s2_def L2 [symmetric]
    by (rule text_step)
       (use st in \<open>simp_all add: s1_def isStartOfToken_escaped [OF unescaped]\<close>)
  have r3: "lexerAfter L allowedToken (length t) s2 = Some s3"
    unfolding s3_def L3 [symmetric]
    by (rule plain_passes) (use t st in \<open>simp_all add: s2_def s1_def\<close>)
  have guards: "idx st < int (length L)" "idx s1 < int (length L)"
    using st by (simp_all add: s1_def L_def)
  have "lexerAfter L allowedToken (Suc (Suc (length t))) st = Some s3"
    using b1 b2 r3 guards by simp
  moreover have "s3 = st\<lparr>currentContent := currentContent st @ backtick # p,
                         idx := idx st + 1 + int (length p)\<rparr>"
    by (simp add: s3_def s2_def s1_def p)
  ultimately show ?thesis by (simp add: L_def p)
qed

text \<open>The tokens appended so far stay: a pass through the loop only adds tokens.\<close>

lemma startTokens_keeps [simp]:
  "result (startTokens allowedToken prev rest st) = result st"
  "currentContent (startTokens allowedToken prev rest st) = currentContent st"
  by (simp_all add: startTokens_def Let_def)

lemma loopBody_result:
  shows "loopBody input allowedToken st = Continue st' \<Longrightarrow> prefix (result st) (result st')"
    and "loopBody input allowedToken st = Return r fatal \<Longrightarrow> prefix (result st) r"
proof -
  have quote: "result sq = result st" if "quoteSwitch prev c st = Some sq" for prev c sq
    using that by (auto simp: quoteSwitch_def split: if_splits option.splits)
  have app: "result s' = result s" if "appendRune input s = Continue s'" for s s'
    using that by (auto simp: appendRune_def split: option.splits)
  have cl: "prefix (result s) (result s')" if "closeExecutable input s = Continue s'" for s s'
    using that by (auto simp: closeExecutable_def Let_def split: option.splits)
  have noret: "appendRune input s \<noteq> Return r fatal" "closeExecutable input s \<noteq> Return r fatal"
    for s
    by (auto simp: appendRune_def closeExecutable_def Let_def split: option.splits)
  have env: "prefix (result st) (result (closeEnvVar st))"
    by (simp add: closeEnvVar_def Let_def)
  have pack: "prefix (result st) (packText allowedToken (startTokens allowedToken prev rest st))"
    for prev rest
    by (simp add: packText_def)
  show "loopBody input allowedToken st = Continue st' \<Longrightarrow> prefix (result st) (result st')"
    using env pack
    by (auto simp: loopBody_def Let_def
          split: option.splits if_splits list.splits
          dest!: app cl dest: quote)
  show "loopBody input allowedToken st = Return r fatal \<Longrightarrow> prefix (result st) r"
    using pack noret
    by (auto simp: loopBody_def Let_def prefix_order.trans [OF pack]
          split: option.splits if_splits list.splits)
qed

lemma Tokenize_loop_result:
  assumes "Tokenize_loop input allowedToken st = Some (toks, fatal)"
  shows "prefix (result st) toks"
  using assms
proof (induction input allowedToken st rule: Tokenize_loop.induct)
  case (1 input allowedToken st)
  show ?case
  proof (cases "idx st < int (length input)")
    case False
    with "1.prems" have "afterLoop input allowedToken st = Some (toks, fatal)"
      by (subst (asm) Tokenize_loop.simps) simp
    then show ?thesis
      by (auto simp: afterLoop_def split: if_splits option.splits)
  next
    case True
    show ?thesis
    proof (cases "loopBody input allowedToken st")
      case (Continue st')
      with True "1.prems" have "Tokenize_loop input allowedToken st' = Some (toks, fatal)"
        by (subst (asm) Tokenize_loop.simps) simp
      from "1.IH" [OF True Continue this] loopBody_result(1) [OF Continue]
      show ?thesis by (rule prefix_order.trans [rotated])
    next
      case (Return r f)
      with True "1.prems" have "r = toks"
        by (subst (asm) Tokenize_loop.simps) simp
      with loopBody_result(2) [OF Return] show ?thesis by simp
    next
      case Panic
      with True "1.prems" show ?thesis
        by (subst (asm) Tokenize_loop.simps) simp
    qed
  qed
qed

text \<open>
  A pass through the loop in text state, with some text collected: the rune joins the
  text, or the text is packed up as a token, its content unescaped, before a new token
  starts or a comment ends the line.
\<close>

lemma text_body_cases:
  assumes "currentTokenType st = textToken" and "currentContent st \<noteq> []"
  shows "case loopBody input allowedToken st of
           Continue st' \<Rightarrow>
             (\<exists>r. st' = st\<lparr>currentContent := currentContent st @ r, idx := idx st + 1\<rparr>) \<or>
             result st' = result st @
               [\<lparr>tokenType = textToken,
                 content = unescapeTextContent (currentContent st) allowedToken True,
                 fatalContent = currentContent st\<rparr>]
         | Return r fatal \<Rightarrow>
             (\<exists>rest. r = result st @
               [\<lparr>tokenType = textToken,
                 content = unescapeTextContent (currentContent st) allowedToken True,
                 fatalContent = currentContent st\<rparr>,
                \<lparr>tokenType = commentToken, content = [], fatalContent = rest\<rparr>])
         | Panic \<Rightarrow> True"
  using assms
  by (auto simp: loopBody_def Let_def appendRune_def packText_def
        split: option.splits control.splits)

text \<open>
  So the text collected in text state leaves the lexer as one text token: its raw content
  is the text collected then and the text \<open>Y\<close> collected after, and its content is that
  raw content unescaped.
\<close>

lemma text_token_emitted:
  assumes "Tokenize_loop input allowedToken st = Some (toks, fatal)"
    and "currentTokenType st = textToken" and "currentContent st \<noteq> []"
  shows "\<exists>Y hasNextToken after.
           toks = result st @
             \<lparr>tokenType = textToken,
              content = unescapeTextContent (currentContent st @ Y) allowedToken hasNextToken,
              fatalContent = currentContent st @ Y\<rparr> # after"
  using assms
proof (induction input allowedToken st rule: Tokenize_loop.induct)
  case (1 input allowedToken st)
  let ?T = "\<lambda>Y b. \<lparr>tokenType = textToken,
              content = unescapeTextContent (currentContent st @ Y) allowedToken b,
              fatalContent = currentContent st @ Y\<rparr>"
  show ?case
  proof (cases "idx st < int (length input)")
    case False
    with "1.prems" have "toks = result st @ ?T [] False # []"
      by (subst (asm) Tokenize_loop.simps) (auto simp: afterLoop_def)
    then show ?thesis by blast
  next
    case True
    note cases = text_body_cases [OF "1.prems"(2,3), of allowedToken input]
    show ?thesis
    proof (cases "loopBody input allowedToken st")
      case (Continue st')
      with True "1.prems" have run: "Tokenize_loop input allowedToken st' = Some (toks, fatal)"
        by (subst (asm) Tokenize_loop.simps) simp
      from cases Continue consider
        (joined) r where "st' = st\<lparr>currentContent := currentContent st @ r, idx := idx st + 1\<rparr>"
        | (packed) "result st' = result st @ [?T [] True]"
        by auto
      then show ?thesis
      proof cases
        case joined
        with "1.prems" have "currentTokenType st' = textToken" "currentContent st' \<noteq> []"
          by simp_all
        from "1.IH" [OF True Continue run this] obtain Y b after where
          "toks = result st' @
             \<lparr>tokenType = textToken,
              content = unescapeTextContent (currentContent st' @ Y) allowedToken b,
              fatalContent = currentContent st' @ Y\<rparr> # after"
          by blast
        with joined have "toks = result st @ ?T (r @ Y) b # after" by simp
        then show ?thesis by blast
      next
        case packed
        from Tokenize_loop_result [OF run] obtain after where
          "toks = result st' @ after"
          by (auto simp: prefix_def)
        with packed have "toks = result st @ ?T [] True # after" by simp
        then show ?thesis by blast
      qed
    next
      case (Return r f)
      with True "1.prems" have "r = toks"
        by (subst (asm) Tokenize_loop.simps) simp
      with cases Return obtain rest where
        "toks = result st @ ?T [] True #
                  [\<lparr>tokenType = commentToken, content = [], fatalContent = rest\<rparr>]"
        by auto
      then show ?thesis by blast
    next
      case Panic
      with True "1.prems" show ?thesis
        by (subst (asm) Tokenize_loop.simps) simp
    qed
  qed
qed

subsection \<open>The lexer returns, and loses nothing but in an unclosed executable\<close>

lemma take_Suc_int:
  assumes "0 \<le> i" and "i < int (length xs)"
  shows "take (nat (i + 1)) xs = take (nat i) xs @ [xs ! nat i]"
proof -
  from assms have "nat (i + 1) = Suc (nat i)" "nat i < length xs" by auto
  then show ?thesis by (simp add: take_Suc_conv_app_nth)
qed

lemma take_prefix_drop:
  assumes "0 \<le> i" and "i \<le> int (length xs)" and "prefix p (drop (nat i) xs)"
  shows "take (nat (i + int (length p))) xs = take (nat i) xs @ p"
    and "i + int (length p) \<le> int (length xs)"
proof -
  from assms(3) obtain r where r: "drop (nat i) xs = p @ r" by (auto simp: prefix_def)
  then have "length (drop (nat i) xs) = length p + length r" by simp
  with assms(1,2) have len: "nat i + length p \<le> length xs" by simp
  with assms(1) show "i + int (length p) \<le> int (length xs)" by linarith
  from assms(1) have "nat (i + int (length p)) = nat i + length p" by auto
  then have "take (nat (i + int (length p))) xs = take (nat i) xs @ take (length p) (drop (nat i) xs)"
    by (simp add: take_add)
  with r show "take (nat (i + int (length p))) xs = take (nat i) xs @ p" by simp
qed

lemma appendRune_inv:
  assumes "0 \<le> idx st" and "idx st < int (length input)"
  shows "appendRune input st =
           Continue (st\<lparr>currentContent := currentContent st @ [input ! nat (idx st)],
                       idx := idx st + 1\<rparr>)"
proof -
  from assms have "nat (idx st) < length input" by auto
  then have "take 1 (drop (nat (idx st)) input) = [input ! nat (idx st)]"
    by (simp add: take_Suc_conv_app_nth [symmetric] hd_drop_conv_nth take_Suc)
  with assms show ?thesis by (simp add: appendRune_def slice_def)
qed


lemma rawContents_snoc [simp]:
  "rawContents (toks @ [t]) = rawContents toks @ fatalContent t"
  "rawContents [] = []"
  by (simp_all add: rawContents_def)

lemma rawContents_packText:
  "rawContents (packText allowedToken st) = rawContents (result st) @ currentContent st"
  by (simp add: packText_def)

lemma step_text:
  assumes inv: "lexerInv input st" and lt: "idx st < int (length input)"
    and ty: "currentTokenType st = textToken"
  shows "stepOk input (loopBody input allowedToken st)"
proof -
  let ?n = "nat (idx st)"
  let ?prev = "take ?n input" and ?rest = "drop ?n input"
  from inv ty have i0: "0 \<le> idx st" and q: "executableQuoteRune st = CHR 0x00"
    "executableQuoteEnd st = 0"
    and raw: "rawContents (result st) @ currentContent st = ?prev"
    by (simp_all add: lexerInv_def)
  from i0 lt have sl: "slice_from input (idx st) = Some ?rest" "slice_to input (idx st) = Some ?prev"
    by (simp_all add: slice_from_def slice_to_def)
  have whole: "?prev @ ?rest = input" by simp
  consider (env) "allowedToken \<ge> envVarToken" "isStartOfToken envVarPrefix ?prev ?rest"
    | (exe) "allowedToken \<ge> executableToken" "isStartOfToken executablePrefix ?prev ?rest"
        "\<not> (allowedToken \<ge> envVarToken \<and> isStartOfToken envVarPrefix ?prev ?rest)"
    | (com) "isStartOfToken commentPrefix ?prev ?rest"
        "\<not> (allowedToken \<ge> envVarToken \<and> isStartOfToken envVarPrefix ?prev ?rest)"
        "\<not> (allowedToken \<ge> executableToken \<and> isStartOfToken executablePrefix ?prev ?rest)"
    | (none) "\<not> (allowedToken \<ge> envVarToken \<and> isStartOfToken envVarPrefix ?prev ?rest)"
        "\<not> (allowedToken \<ge> executableToken \<and> isStartOfToken executablePrefix ?prev ?rest)"
        "\<not> isStartOfToken commentPrefix ?prev ?rest"
    by blast
  then show ?thesis
  proof cases
    case env
    then have pre: "prefix envVarPrefix ?rest"
      by (simp add: isStartOfToken_def HasPrefix_def)
    then have no: "\<not> isStartOfToken executablePrefix ?prev ?rest"
      "\<not> isStartOfToken commentPrefix ?prev ?rest"
      by (auto simp: isStartOfToken_def HasPrefix_def prefix_def)
    from take_prefix_drop [OF i0 _ pre] lt
    have t: "take (nat (idx st + 2)) input = ?prev @ envVarPrefix" "idx st + 2 \<le> int (length input)"
      by simp_all
    from env no ty have st3: "startTokens allowedToken ?prev ?rest st =
        st\<lparr>idx := idx st + 2, currentTokenType := envVarToken\<rparr>"
      by (simp add: startTokens_def)
    show ?thesis
      using ty i0 q raw t
      by (auto simp add: loopBody_def sl st3 stepOk_def lexerInv_def packText_def Let_def)
  next
    case exe
    then have pre: "prefix executablePrefix ?rest"
      by (simp add: isStartOfToken_def HasPrefix_def)
    then have no: "\<not> isStartOfToken commentPrefix ?prev ?rest"
      by (auto simp: isStartOfToken_def HasPrefix_def prefix_def)
    from take_prefix_drop [OF i0 _ pre] lt
    have t: "idx st + 2 \<le> int (length input)"
      by simp_all
    from exe no ty have st3: "startTokens allowedToken ?prev ?rest st =
        st\<lparr>executableStartIdx := idx st, idx := idx st + 2, currentTokenType := executableToken\<rparr>"
      by (auto simp add: startTokens_def)
    show ?thesis
      using ty i0 q raw t
      by (auto simp add: loopBody_def sl st3 stepOk_def lexerInv_def packText_def Let_def)
  next
    case com
    with ty have st3: "startTokens allowedToken ?prev ?rest st =
        st\<lparr>idx := idx st + 1, currentTokenType := commentToken\<rparr>"
      by (auto simp add: startTokens_def)
    show ?thesis
      using ty raw whole
      by (auto simp add: loopBody_def sl st3 stepOk_def packText_def Let_def)
  next
    case none
    with ty have st3: "startTokens allowedToken ?prev ?rest st = st"
      by (auto simp add: startTokens_def)
    show ?thesis
      using ty i0 lt q raw take_Suc_int [OF i0 lt]
      by (simp add: loopBody_def sl st3 stepOk_def lexerInv_def appendRune_inv Let_def)
  qed
qed

lemma step_envVar:
  assumes inv: "lexerInv input st" and lt: "idx st < int (length input)"
    and ty: "currentTokenType st = envVarToken"
  shows "stepOk input (loopBody input allowedToken st)"
proof -
  let ?n = "nat (idx st)"
  let ?prev = "take ?n input" and ?rest = "drop ?n input"
  from inv ty have i0: "0 \<le> idx st" and q: "executableQuoteRune st = CHR 0x00"
    "executableQuoteEnd st = 0"
    and raw: "rawContents (result st) @ envVarPrefix @ currentContent st = ?prev"
    by (simp_all add: lexerInv_def)
  from i0 lt have sl: "slice_from input (idx st) = Some ?rest" "slice_to input (idx st) = Some ?prev"
    by (simp_all add: slice_from_def slice_to_def)
  show ?thesis
  proof (cases "isStartOfToken ''}'' ?prev ?rest")
    case True
    then have pre: "prefix ''}'' ?rest"
      by (simp add: isStartOfToken_def HasPrefix_def)
    from take_prefix_drop [OF i0 _ pre] lt
    have t: "take (nat (idx st + 1)) input = ?prev @ ''}''"
      by simp_all
    show ?thesis
      using ty i0 lt q raw t True
      by (simp add: loopBody_def sl stepOk_def lexerInv_def closeEnvVar_def Let_def)
  next
    case False
    show ?thesis
      using ty i0 lt q raw take_Suc_int [OF i0 lt] False
      by (simp add: loopBody_def sl stepOk_def lexerInv_def appendRune_inv)
  qed
qed

lemma unescapeTillNow_inv:
  assumes "0 \<le> qe" and "qe \<le> int (length cc)"
  shows "\<exists>cc'. unescapeTillNow cc qe = Some cc' \<and> qe \<le> int (length cc')"
  using assms by (simp add: unescapeTillNow_def slice_from_def slice_to_def)

lemma step_executable:
  assumes inv: "lexerInv input st" and lt: "idx st < int (length input)"
    and ty: "currentTokenType st = executableToken"
  shows "stepOk input (loopBody input allowedToken st)"
proof -
  let ?n = "nat (idx st)"
  let ?prev = "take ?n input" and ?rest = "drop ?n input"
  from inv ty have i0: "0 \<le> idx st"
    and start: "0 \<le> executableStartIdx st" "executableStartIdx st \<le> idx st"
    and raw: "rawContents (result st) = take (nat (executableStartIdx st)) input"
    and qe: "0 \<le> executableQuoteEnd st" "executableQuoteEnd st \<le> int (length (currentContent st))"
    and qr: "executableQuoteRune st \<noteq> CHR 0x00 \<longrightarrow> currentContent st \<noteq> []"
    by (simp_all add: lexerInv_def)
  from i0 lt have sl: "slice_from input (idx st) = Some ?rest" "slice_to input (idx st) = Some ?prev"
    by (simp_all add: slice_from_def slice_to_def)
  from i0 lt have rest: "?rest = input ! ?n # drop (Suc ?n) input"
    by (simp add: Cons_nth_drop_Suc)
  let ?c = "input ! ?n"
  have "\<exists>sq. quoteSwitch ?prev ?c st = Some sq \<and> idx sq = idx st \<and>
          currentTokenType sq = executableToken \<and> result sq = result st \<and>
          executableStartIdx sq = executableStartIdx st \<and>
          0 \<le> executableQuoteEnd sq \<and> executableQuoteEnd sq \<le> int (length (currentContent sq))"
    using unescapeTillNow_inv [OF qe] ty qe qr
    by (auto simp: quoteSwitch_def)
  then obtain sq where sq: "quoteSwitch ?prev ?c st = Some sq" "idx sq = idx st"
    "currentTokenType sq = executableToken" "result sq = result st"
    "executableStartIdx sq = executableStartIdx st"
    "0 \<le> executableQuoteEnd sq" "executableQuoteEnd sq \<le> int (length (currentContent sq))"
    by blast
  show ?thesis
  proof (cases "executableQuoteRune sq = CHR 0x00 \<and> isStartOfToken '')'' ?prev ?rest")
    case True
    then have pre: "prefix '')'' ?rest"
      by (simp add: isStartOfToken_def HasPrefix_def)
    from unescapeTillNow_inv [OF sq(6,7)] obtain cc'
      where cc': "unescapeTillNow (currentContent sq) (executableQuoteEnd sq) = Some cc'"
      by blast
    from start i0 lt
    have raw': "slice input (executableStartIdx st) (idx st + 1) =
        Some (take (nat (idx st + 1 - executableStartIdx st)) (drop (nat (executableStartIdx st)) input))"
      by (simp add: slice_def)
    from start i0
    have "nat (idx st + 1) = nat (executableStartIdx st) + nat (idx st + 1 - executableStartIdx st)"
      by linarith
    then have "take (nat (executableStartIdx st)) input @
          take (nat (idx st + 1 - executableStartIdx st)) (drop (nat (executableStartIdx st)) input) =
          take (nat (idx st + 1)) input"
      by (simp add: take_add)
    with True i0 lt raw ty show ?thesis
      by (simp add: loopBody_def sl rest sq cc' raw' closeExecutable_def Let_def stepOk_def
            lexerInv_def)
  next
    case False
    have "currentContent sq @ [?c] \<noteq> []" by simp
    with False i0 lt raw sq ty start show ?thesis
      using appendRune_inv [of sq input]
      by (auto simp add: loopBody_def sl rest stepOk_def lexerInv_def)
  qed
qed

lemma loopBody_stepOk:
  assumes "lexerInv input st" and "idx st < int (length input)"
  shows "stepOk input (loopBody input allowedToken st)"
proof -
  from assms(1) consider "currentTokenType st = textToken" | "currentTokenType st = envVarToken"
    | "currentTokenType st = executableToken"
    by (auto simp: lexerInv_def split: if_splits)
  then show ?thesis
    using assms by cases (rule step_text step_envVar step_executable; assumption)+
qed

lemma afterLoop_lossless:
  assumes inv: "lexerInv input st" and fin: "\<not> idx st < int (length input)"
  shows "\<exists>toks fatal. afterLoop input allowedToken st = Some (toks, fatal) \<and>
           (fatal = [] \<or> prefix ''Missing closing bracket'' fatal \<longrightarrow> rawContents toks = input)"
proof -
  from inv fin have len: "nat (idx st) = length input" "idx st = int (length input)"
    by (auto simp: lexerInv_def)
  from inv consider (plain) "currentTokenType st = textToken"
    | (env) "currentTokenType st = envVarToken" | (exe) "currentTokenType st = executableToken"
    by (auto simp: lexerInv_def split: if_splits)
  then show ?thesis
  proof cases
    case plain
    with inv len show ?thesis by (auto simp: lexerInv_def afterLoop_def)
  next
    case env
    with inv len show ?thesis by (auto simp: lexerInv_def afterLoop_def)
  next
    case exe
    with inv len have "0 \<le> executableStartIdx st"
      "executableStartIdx st \<le> int (length input)"
      by (auto simp: lexerInv_def)
    with exe show ?thesis by (simp add: afterLoop_def slice_from_def)
  qed
qed

lemma Tokenize_loop_lossless:
  assumes "lexerInv input st"
  shows "\<exists>toks fatal. Tokenize_loop input allowedToken st = Some (toks, fatal) \<and>
           (fatal = [] \<or> prefix ''Missing closing bracket'' fatal \<longrightarrow> rawContents toks = input)"
  using assms
proof (induction input allowedToken st rule: Tokenize_loop.induct)
  case (1 input allowedToken st)
  show ?case
  proof (cases "idx st < int (length input)")
    case False
    with afterLoop_lossless [OF "1.prems" False, of allowedToken] show ?thesis
      by (subst Tokenize_loop.simps) simp
  next
    case True
    from loopBody_stepOk [OF "1.prems" True, of allowedToken]
    show ?thesis
    proof (cases "loopBody input allowedToken st")
      case (Continue st')
      with \<open>stepOk input (loopBody input allowedToken st)\<close> have "lexerInv input st'"
        by (simp add: stepOk_def)
      from "1.IH" [OF True Continue this] True Continue show ?thesis
        by (subst Tokenize_loop.simps) simp
    next
      case (Return r fatal)
      with \<open>stepOk input (loopBody input allowedToken st)\<close> True show ?thesis
        by (subst Tokenize_loop.simps) (simp add: stepOk_def)
    next
      case Panic
      with \<open>stepOk input (loopBody input allowedToken st)\<close> show ?thesis
        by (simp add: stepOk_def)
    qed
  qed
qed

text \<open>
  The invariant holds at the start, and every pass through the loop keeps it. So
  \<^verbatim>\<open>Tokenize\<close> never panics, and the raw contents of its tokens are the line whenever
  there is no fatal message, and also when an environment variable is not closed.
\<close>

lemma lexerInv_initial: "lexerInv input initialLexer"
  by (simp add: lexerInv_def initialLexer_def)

lemma Tokenize_returns: "\<exists>toks fatal. Tokenize input allowedToken = Some (toks, fatal)"
  using Tokenize_loop_lossless [OF lexerInv_initial, of "runesOf input" allowedToken]
  by (auto simp: Tokenize_def)

lemma Tokenize_lossless:
  assumes "Tokenize input allowedToken = Some (toks, fatal)"
    and "fatal = [] \<or> prefix ''Missing closing bracket'' fatal"
  shows "rawContents toks = runesOf input"
  using Tokenize_loop_lossless [OF lexerInv_initial, of "runesOf input" allowedToken] assms
  by (auto simp: Tokenize_def)

text \<open>
  Claim C8, as the code has it. Let the line, as runes, hold a backtick that no backslash
  escapes, followed by one of the prefixes \<open>#\<close>, \<open>${\<close> and \<open>$(\<close> whose kind is within the
  allowed ceiling (the comment prefix always is), and let the lexer reach that backtick
  in text state, after \<open>n\<close> passes through the loop. Then
  \<^item> the passes over the backtick and the prefix start no token: both join the text that
    is being collected;
  \<^item> \<^verbatim>\<open>Tokenize\<close> returns, and that text leaves it as one text token, after the
    tokens made before: its raw content is the text collected before the backtick, the
    backtick, the prefix and the text \<open>Y\<close> collected after; its content is the unescaped
    text before, the prefix without the backtick, and the unescaped text after;
  \<^item> unescaping a text content removes that backtick and keeps the prefix, whatever
    stands around them.
  In particular the line \<open>a`${b}\<close>, with environment variables allowed, gives the one
  text token \<open>a${b}\<close>.
\<close>

theorem Tokenize_escaped_prefix:
  assumes "recognised p allowedToken" and "\<not> HasSuffix pre [backslash]"
    and "runesOf input = pre @ backtick # p @ post"
    and "lexerAfter (runesOf input) allowedToken n initialLexer = Some st"
    and "currentTokenType st = textToken" and "idx st = int (length pre)"
  shows "lexerAfter (runesOf input) allowedToken (n + (1 + length p)) initialLexer =
           Some (st\<lparr>currentContent := currentContent st @ backtick # p,
                    idx := idx st + 1 + int (length p)\<rparr>) \<and>
         (\<exists>Y hasNextToken after fatal.
            Tokenize input allowedToken =
              Some (result st @
                    \<lparr>tokenType = textToken,
                     content = unescapeTextContent (currentContent st) allowedToken False @ p @
                               unescapeTextContent Y allowedToken hasNextToken,
                     fatalContent = currentContent st @ backtick # p @ Y\<rparr> # after,
                    fatal)) \<and>
         unescapeTextContent (X @ backtick # p @ Z) allowedToken hasNext =
           unescapeTextContent X allowedToken False @ p @
             unescapeTextContent Z allowedToken hasNext \<and>
         Tokenize ''a`${b}'' envVarToken =
           Some ([\<lparr>tokenType = textToken, content = ''a${b}'', fatalContent = ''a`${b}''\<rparr>], [])"
proof (intro conjI)
  let ?L = "runesOf input"
  define s where "s = st\<lparr>currentContent := currentContent st @ backtick # p,
                         idx := idx st + 1 + int (length p)\<rparr>"
  from escaped_passes [OF assms(1,2,5,6), of post]
  have over: "lexerAfter ?L allowedToken (1 + length p) st = Some s"
    by (simp only: s_def assms(3))
  with assms(4) show reach: "lexerAfter ?L allowedToken (n + (1 + length p)) initialLexer =
      Some (st\<lparr>currentContent := currentContent st @ backtick # p,
               idx := idx st + 1 + int (length p)\<rparr>)"
    by (simp only: lexerAfter_add s_def option.case)
  from Tokenize_returns [of input allowedToken] obtain toks fatal where
    ret: "Tokenize input allowedToken = Some (toks, fatal)"
    by blast
  have "Tokenize input allowedToken = Tokenize_loop ?L allowedToken s"
    using lexerAfter_loop [OF assms(4)] lexerAfter_loop [OF over]
    by (simp only: Tokenize_def)
  with ret have run: "Tokenize_loop ?L allowedToken s = Some (toks, fatal)" by simp
  have "currentTokenType s = textToken" "currentContent s \<noteq> []"
    using assms(5) by (simp_all add: s_def)
  from text_token_emitted [OF run this] obtain Y b after where
    "toks = result s @
       \<lparr>tokenType = textToken,
        content = unescapeTextContent (currentContent s @ Y) allowedToken b,
        fatalContent = currentContent s @ Y\<rparr> # after"
    by blast
  then have "toks = result st @
       \<lparr>tokenType = textToken,
        content = unescapeTextContent (currentContent st) allowedToken False @ p @
                  unescapeTextContent Y allowedToken b,
        fatalContent = currentContent st @ backtick # p @ Y\<rparr> # after"
    using unescape_escaped_prefix [OF assms(1), of "currentContent st" Y b]
    by (simp add: s_def)
  with ret show "\<exists>Y hasNextToken after fatal.
      Tokenize input allowedToken =
        Some (result st @
              \<lparr>tokenType = textToken,
               content = unescapeTextContent (currentContent st) allowedToken False @ p @
                         unescapeTextContent Y allowedToken hasNextToken,
               fatalContent = currentContent st @ backtick # p @ Y\<rparr> # after,
              fatal)"
    by blast
next
  show "unescapeTextContent (X @ backtick # p @ Z) allowedToken hasNext =
          unescapeTextContent X allowedToken False @ p @
            unescapeTextContent Z allowedToken hasNext"
    by (rule unescape_escaped_prefix [OF assms(1)])
next
  show "Tokenize ''a`${b}'' envVarToken =
      Some ([\<lparr>tokenType = textToken, content = ''a${b}'', fatalContent = ''a`${b}''\<rparr>], [])"
    by code_simp
qed

theorem Tokenize_escaped_prefix_witness:
  "recognised ''${'' envVarToken \<and> \<not> HasSuffix ''x '' [backslash] \<and>
   runesOf ''x `${a} ${b}'' = ''x '' @ backtick # ''${'' @ ''a} ${b}'' \<and>
   lexerAfter (runesOf ''x `${a} ${b}'') envVarToken 2 initialLexer =
     Some (initialLexer\<lparr>currentContent := ''x '', idx := 2\<rparr>) \<and>
   lexerAfter (runesOf ''x `${a} ${b}'') envVarToken 5 initialLexer =
     Some (initialLexer\<lparr>currentContent := ''x `${'', idx := 5\<rparr>) \<and>
   Tokenize ''x `${a} ${b}'' envVarToken =
     Some ([\<lparr>tokenType = textToken, content = ''x ${a} '', fatalContent = ''x `${a} ''\<rparr>,
            \<lparr>tokenType = envVarToken, content = ''b'', fatalContent = ''${b}''\<rparr>], []) \<and>
   unescapeTextContent ''x `${a} '' envVarToken True = ''x ${a} ''"
proof -
  have hyp: "recognised ''${'' envVarToken" "\<not> HasSuffix ''x '' [backslash]"
    by (simp_all add: recognised_def HasSuffix_def)
  have runes: "runesOf ''x `${a} ${b}'' = ''x '' @ backtick # ''${'' @ ''a} ${b}''"
    by code_simp
  have reach: "lexerAfter (runesOf ''x `${a} ${b}'') envVarToken 2 initialLexer =
      Some (initialLexer\<lparr>currentContent := ''x '', idx := 2\<rparr>)"
    by code_simp
  have st: "currentTokenType (initialLexer\<lparr>currentContent := ''x '', idx := 2\<rparr>) = textToken"
    "idx (initialLexer\<lparr>currentContent := ''x '', idx := 2\<rparr>) = int (length ''x '')"
    by (simp_all add: initialLexer_def)
  have toks: "Tokenize ''x `${a} ${b}'' envVarToken =
     Some ([\<lparr>tokenType = textToken, content = ''x ${a} '', fatalContent = ''x `${a} ''\<rparr>,
            \<lparr>tokenType = envVarToken, content = ''b'', fatalContent = ''${b}''\<rparr>], [])"
    by code_simp
  have plain: "unescapeTextContent ''x '' envVarToken False = ''x ''"
    "unescapeTextContent ''a} '' envVarToken True = ''a} ''"
    by code_simp+
  from Tokenize_escaped_prefix [OF hyp runes reach st, of "''x ''" "''a} ''" True]
    hyp runes reach toks plain
  show ?thesis by (simp add: initialLexer_def)
qed

text \<open>
  Inside an environment variable or an executable no text is being collected: the
  backtick and the prefix join the content of that token, which is not unescaped for
  them.
\<close>

lemma escaped_prefix_inside:
  "Tokenize ''${a`#}'' envVarToken =
     Some ([\<lparr>tokenType = envVarToken, content = ''a`#'', fatalContent = ''${a`#}''\<rparr>], [])"
  by code_simp

text \<open>
  The claim as stated fails for a prefix above the ceiling: with executables allowed and
  environment variables not, the prefix \<open>${\<close> after the backtick starts no token, but the
  backtick stays in the content of the text token.
\<close>

theorem Tokenize_escaped_prefix_counterexample:
  "Tokenize ''a`${b}'' executableToken =
     Some ([\<lparr>tokenType = textToken, content = ''a`${b}'', fatalContent = ''a`${b}''\<rparr>], [])"
  by code_simp

text \<open>
  Claim C1 says that the raw contents of the tokens of a line, put together in their
  order, are the line, also when the last token is an error token. It fails on the code.
  An executable whose quote is never closed ends the line in an error token made of the
  prefix and the current content, and that content has lost the backticks before closing
  parentheses when the quote was opened (line 206). The raw contents of the tokens of
  \<open>$(echo `) "x\<close> are \<open>$(echo ) "x\<close>: not the line.
\<close>

theorem Tokenize_error_token_loses_escape:
  \<open>Tokenize ''$(echo `) "x'' envVarToken =
     Some ([\<lparr>tokenType = errorToken, content = [], fatalContent = ''$(echo ) "x''\<rparr>],
           ''Unterminated quote sequence for executable: $(echo `) "x'') \<and>
   rawContents (fst (the (Tokenize ''$(echo `) "x'' envVarToken))) \<noteq> ''$(echo `) "x''\<close>
  by code_simp

end
